theory Spec2Isabelle
  imports Complex_Main
begin

section \<open>Data model\<close>

text \<open>
  The components are React function components written in TypeScript. A JavaScript
  \<open>number\<close> is idealised as a real: rounding, \<open>NaN\<close> and the infinities of IEEE
  doubles are outside the model (a quotient by zero is \<open>Infinity\<close> or \<open>NaN\<close> in
  JavaScript and \<open>0\<close> in HOL, so statements about a scale factor are meaningful for a
  nonzero native size only).
\<close>

text \<open>\<open>interface FaceDetection\<close> (camera.tsx lines 9-14). \<open>probability\<close> is the
  one-element tuple \<open>[number]\<close>; \<open>landmarks\<close> is an array of pairs of any length.\<close>

record FaceDetection =
  topLeft :: "real \<times> real"
  bottomRight :: "real \<times> real"
  probability :: real
  landmarks :: "(real \<times> real) list"

text \<open>The calls made on a 2D drawing context, in the order they are made. The two
  angles of \<open>Arc\<close> are recorded in units of \<open>Math.PI\<close>.\<close>

datatype canvas_op =
    ClearRect real real real real
  | SetFillStyle string
  | SetStrokeStyle string
  | SetLineWidth real
  | StrokeRect real real real real
  | BeginPath
  | Arc real real real real real
  | Fill
  | DrawImage real real real real real real real real

text \<open>A canvas element: its size, whether \<open>getContext('2d')\<close> yields a context, and
  the log of the calls made on that context. \<open>width\<close> and \<open>height\<close> are attributes
  of type \<open>unsigned long\<close>.\<close>

record canvas_elem =
  width :: nat
  height :: nat
  has2d :: bool
  ops :: "canvas_op list"

text \<open>
  What such an attribute holds after a number has been assigned to it, \<open>d\<close> being its
  default: the number is truncated toward zero and reduced modulo \<open>2^32\<close>, and a
  result above \<open>2^31 - 1\<close> is replaced by the default.
\<close>

definition unsigned_long :: "nat \<Rightarrow> real \<Rightarrow> nat" where
  "unsigned_long d x =
     (let n = (if 0 \<le> x then \<lfloor>x\<rfloor> else \<lceil>x\<rceil>) mod 4294967296
      in if n \<le> 2147483647 then nat n else d)"

text \<open>The assignments \<open>canvas.width = x\<close> and \<open>canvas.height = y\<close>.\<close>

definition set_size :: "real \<Rightarrow> real \<Rightarrow> canvas_elem \<Rightarrow> canvas_elem" where
  "set_size x y canvas =
     canvas\<lparr>width := unsigned_long 300 x, height := unsigned_long 150 y\<rparr>"

text \<open>\<open>document.createElement('canvas')\<close>: a fresh element has the default size.\<close>

definition createElement_canvas :: "bool \<Rightarrow> canvas_elem" where
  "createElement_canvas ctx = \<lparr>width = 300, height = 150, has2d = ctx, ops = []\<rparr>"

text \<open>A media stream is the list of its tracks (track identifiers); which tracks are
  live is kept in the component state.\<close>

type_synonym MediaStream = "nat list"

record video_elem =
  srcObject :: "MediaStream option"
  onloadedmetadata :: bool
  paused :: bool
  readyState :: nat
  clientWidth :: real
  clientHeight :: real
  videoWidth :: real
  videoHeight :: real

definition HAVE_ENOUGH_DATA :: nat where
  "HAVE_ENOUGH_DATA = 4"

section \<open>Overlay renderer of camera.tsx\<close>

text \<open>The callback of \<open>face.landmarks.forEach\<close> (camera.tsx lines 118-122).\<close>

definition draw_landmark :: "real \<Rightarrow> real \<Rightarrow> real \<times> real \<Rightarrow> canvas_op list" where
  "draw_landmark scaleX scaleY landmark =
     [BeginPath, Arc (fst landmark * scaleX) (snd landmark * scaleY) 3 0 2, Fill]"

text \<open>The callback of \<open>predictions.forEach\<close> (camera.tsx lines 107-123).\<close>

definition draw_face :: "real \<Rightarrow> real \<Rightarrow> FaceDetection \<Rightarrow> canvas_op list" where
  "draw_face scaleX scaleY face =
     (let (x, y) = topLeft face;
          (width, height) = (fst (bottomRight face) - fst (topLeft face),
                             snd (bottomRight face) - snd (topLeft face))
      in StrokeRect (x * scaleX) (y * scaleY) (width * scaleX) (height * scaleY)
         # concat (map (draw_landmark scaleX scaleY) (landmarks face)))"

text \<open>Clearing and drawing (camera.tsx lines 99-123), on the canvas of the cycle.\<close>

definition draw_predictions ::
  "real \<Rightarrow> real \<Rightarrow> FaceDetection list \<Rightarrow> canvas_elem \<Rightarrow> canvas_elem" where
  "draw_predictions scaleX scaleY preds canvas =
     canvas\<lparr>ops := ops canvas
       @ [ClearRect 0 0 (real (width canvas)) (real (height canvas)),
          SetFillStyle ''rgba(255, 0, 0, 0.5)'',
          SetStrokeStyle ''#FF0000'',
          SetLineWidth 2]
       @ concat (map (draw_face scaleX scaleY) preds)\<rparr>"

text \<open>The scale factors (camera.tsx lines 89-90).\<close>

definition scale_factors :: "video_elem \<Rightarrow> real \<times> real" where
  "scale_factors video =
     (clientWidth video / videoWidth video, clientHeight video / videoHeight video)"

text \<open>Reading the log: the rectangles stroked, in order.\<close>

fun is_StrokeRect :: "canvas_op \<Rightarrow> bool" where
  "is_StrokeRect (StrokeRect x y w h) = True"
| "is_StrokeRect _ = False"

definition rectangles :: "canvas_op list \<Rightarrow> canvas_op list" where
  "rectangles os = filter is_StrokeRect os"

section \<open>What the two camera components share\<close>

text \<open>
  camera.tsx and its cropped-face variant (src/unnamed/part_001, a second version of the
  component that adds a landmark model and a list of cropped faces) are React function
  components. Each is modelled as a state machine. One event is one task of the browser's event loop: a
  promise settling, a timer or animation-frame callback firing, a click, a media event.
  Within a task the handler runs to its next \<open>await\<close> on an external promise; React
  then renders, and the detection effect is re-run when one of its dependencies changed
  (taken as part of the same task). Delays are not modelled: a pending timer or frame
  callback may fire in any later task. \<open>console.error\<close> calls are omitted. The
  component stays mounted: unmounting is not an event.
\<close>

text \<open>A pending \<open>setTimeout(runDetection, ...)\<close>: the id returned and the effect
  instance whose closure \<open>runDetection\<close> is.\<close>

record timer =
  tid :: nat
  owner :: nat

text \<open>
  The state both components have: five \<open>useState\<close> cells and the two refs, and the
  bookkeeping of the event loop. \<open>liveTracks\<close> are the tracks not yet stopped;
  \<open>loadPending\<close> and \<open>cameraRequests\<close> are the promises of the model loader and
  of \<open>getUserMedia\<close> not yet settled; \<open>effect\<close> numbers the current instance of
  the detection effect and \<open>timeoutId e\<close> is the variable \<open>timeoutId\<close> of instance
  \<open>e\<close>; \<open>timers\<close> are the pending timeouts; \<open>frameCallbacks\<close> is the number of
  pending \<open>requestAnimationFrame(detectFaces)\<close> callbacks; \<open>inferences\<close> counts
  the calls of the face detector's \<open>estimateFaces\<close> made so far.
\<close>

record component =
  isStreaming :: bool
  error :: "string option"
  isLoading :: bool
  predictions :: "FaceDetection list"
  debugInfo :: string
  videoRef :: "video_elem option"
  canvasRef :: "canvas_elem option"
  liveTracks :: "nat set"
  loadPending :: bool
  cameraRequests :: nat
  effect :: nat
  timeoutId :: "nat \<Rightarrow> nat option"
  nextTimer :: nat
  timers :: "timer list"
  frameCallbacks :: nat
  inferences :: nat

text \<open>\<open>startCamera\<close> once \<open>getUserMedia\<close> has resolved, and its \<open>catch\<close>
  branch (camera.tsx lines 29-36 and 38-40; the variant's lines 41-48 and 50-52 are the
  same).\<close>

definition startCamera_granted ::
  "MediaStream \<Rightarrow> 'a component_scheme \<Rightarrow> 'a component_scheme" where
  "startCamera_granted stream s =
     (case videoRef s of
        Some video \<Rightarrow>
          s\<lparr>videoRef := Some (video\<lparr>srcObject := Some stream, onloadedmetadata := True\<rparr>),
            error := None\<rparr>
      | None \<Rightarrow> s)"

definition startCamera_denied :: "'a component_scheme \<Rightarrow> 'a component_scheme" where
  "startCamera_denied s =
     s\<lparr>error := Some ''Failed to access the camera. Please make sure you have given permission.'',
       isLoading := False\<rparr>"

text \<open>The handler installed on \<open>onloadedmetadata\<close> (camera.tsx lines 31-34).\<close>

definition loadedmetadata :: "video_elem \<Rightarrow> 'a component_scheme \<Rightarrow> 'a component_scheme" where
  "loadedmetadata video s =
     s\<lparr>videoRef := Some (video\<lparr>paused := False\<rparr>), isStreaming := True\<rparr>"

text \<open>\<open>timeoutId = setTimeout(runDetection, ...)\<close> in effect instance \<open>e\<close>
  (camera.tsx line 145, the variant's line 197). Ids are positive, hence truthy.\<close>

definition schedule :: "nat \<Rightarrow> 'a component_scheme \<Rightarrow> 'a component_scheme" where
  "schedule e s =
     s\<lparr>timers := timers s @ [\<lparr>tid = nextTimer s, owner = e\<rparr>],
       timeoutId := (timeoutId s)(e \<mapsto> nextTimer s),
       nextTimer := nextTimer s + 1\<rparr>"

text \<open>The cleanup of the detection effect (camera.tsx lines 152-156, the variant's lines
  204-208), run for the current instance; the next instance then gets the next number.\<close>

definition effect_cleanup :: "'a component_scheme \<Rightarrow> 'a component_scheme" where
  "effect_cleanup s =
     (case timeoutId s (effect s) of
        Some t \<Rightarrow> s\<lparr>timers := filter (\<lambda>x. tid x \<noteq> t) (timers s)\<rparr>
      | None \<Rightarrow> s)"

definition next_effect :: "'a component_scheme \<Rightarrow> 'a component_scheme" where
  "next_effect s = (let s1 = effect_cleanup s in s1\<lparr>effect := effect s1 + 1\<rparr>)"

text \<open>A timer leaves the pending timers when it fires or is cleared.\<close>

definition unqueue :: "nat \<Rightarrow> 'a component_scheme \<Rightarrow> 'a component_scheme" where
  "unqueue t s = s\<lparr>timers := filter (\<lambda>y. tid y \<noteq> t) (timers s)\<rparr>"

text \<open>The environment changing the video element's ready state and its displayed and
  native sizes (what the browser does to them, also after \<open>srcObject\<close> is set, is
  left to the environment).\<close>

definition video_changes ::
  "nat \<Rightarrow> real \<Rightarrow> real \<Rightarrow> real \<Rightarrow> real \<Rightarrow> 'a component_scheme \<Rightarrow> 'a component_scheme" where
  "video_changes rs cw ch vw vh s =
     s\<lparr>videoRef := map_option
        (\<lambda>video. video\<lparr>readyState := rs, clientWidth := cw, clientHeight := ch,
                         videoWidth := vw, videoHeight := vh\<rparr>) (videoRef s)\<rparr>"

text \<open>Template literals print a natural number in decimal.\<close>

function showNat :: "nat \<Rightarrow> string" where
  "showNat n =
     (if n < 10 then [''0123456789'' ! n]
      else showNat (n div 10) @ [''0123456789'' ! (n mod 10)])"
  by pat_completeness auto
termination
  by (relation "measure id") auto

declare showNat.simps [simp del]

section \<open>The component of camera.tsx\<close>

datatype BlazeFaceModel = BlazeFaceModel

text \<open>A call of \<open>detectFaces\<close> suspended at \<open>await model.estimateFaces(...)\<close>:
  the effect instance whose \<open>runDetection\<close> awaits the call (none when the call was
  made by \<open>requestAnimationFrame\<close>) and the scale factors it holds.\<close>

record cycle =
  awaited_by :: "nat option"
  cyc_scaleX :: real
  cyc_scaleY :: real

text \<open>\<open>frameCount\<close> is the variable the memoised \<open>detectFaces\<close> closes over;
  \<open>inflight\<close> are the suspended calls of \<open>detectFaces\<close>.\<close>

record camera = component +
  model :: "BlazeFaceModel option"
  frameCount :: nat
  inflight :: "cycle list"

text \<open>The state after the first render and its effects: \<open>loadModel()\<close> has been
  called, the detection effect has run once and found \<open>isStreaming\<close> false. \<open>ctx\<close>
  says whether the overlay canvas yields a 2D context.\<close>

definition mounted :: "bool \<Rightarrow> camera" where
  "mounted ctx =
     \<lparr>isStreaming = False, error = None, isLoading = True,
      predictions = [], debugInfo = [],
      videoRef = Some \<lparr>srcObject = None, onloadedmetadata = False, paused = True,
        readyState = 0, clientWidth = 0, clientHeight = 0, videoWidth = 0,
        videoHeight = 0\<rparr>,
      canvasRef = Some (createElement_canvas ctx),
      liveTracks = {}, loadPending = True, cameraRequests = 0,
      effect = 0, timeoutId = (\<lambda>e. None), nextTimer = 1, timers = [],
      frameCallbacks = 0, inferences = 0,
      model = None, frameCount = 0, inflight = []\<rparr>"

text \<open>\<open>stopCamera\<close> (camera.tsx lines 44-53).\<close>

definition stopCamera :: "camera \<Rightarrow> camera" where
  "stopCamera s =
     (case videoRef s of
        Some video \<Rightarrow>
          (case srcObject video of
             Some tracks \<Rightarrow>
               s\<lparr>liveTracks := liveTracks s - set tracks,
                 videoRef := Some (video\<lparr>srcObject := None\<rparr>),
                 isStreaming := False,
                 predictions := [],
                 debugInfo := []\<rparr>
           | None \<Rightarrow> s)
      | None \<Rightarrow> s)"

text \<open>\<open>loadModel\<close> once its \<open>try\<close> block has run through (lines 59-60), and its
  \<open>catch\<close> branch (lines 62-64), taken when \<open>tf.setBackend\<close> or \<open>blazeface.load\<close>
  rejects.\<close>

definition loadModel_loaded :: "BlazeFaceModel \<Rightarrow> camera \<Rightarrow> camera" where
  "loadModel_loaded loadedModel s = s\<lparr>model := Some loadedModel, isLoading := False\<rparr>"

definition loadModel_failed :: "camera \<Rightarrow> camera" where
  "loadModel_failed s =
     s\<lparr>error := Some ''Failed to load the face detection model.'', isLoading := False\<rparr>"

text \<open>
  \<open>detectFaces\<close> up to its first suspension (lines 71-94). The result says whether the
  promise it returns is already settled (\<open>Returned\<close>) or waits for
  \<open>model.estimateFaces\<close> (\<open>Suspended\<close>). The closure's \<open>model\<close> is read from the
  state: the closure is re-made whenever \<open>model\<close> changes, and \<open>model\<close> changes once.
\<close>

datatype returned = Returned | Suspended

definition detectFaces :: "nat option \<Rightarrow> camera \<Rightarrow> returned \<times> camera" where
  "detectFaces caller s =
     (case (videoRef s, model s, canvasRef s) of
        (Some video, Some m, Some canvas) \<Rightarrow>
          if \<not> has2d canvas then (Returned, s)
          else if readyState video \<noteq> HAVE_ENOUGH_DATA
          then (Returned, s\<lparr>frameCallbacks := frameCallbacks s + 1\<rparr>)
          else
            let canvas' = set_size (clientWidth video) (clientHeight video) canvas;
                (scaleX, scaleY) = scale_factors video
            in (Suspended,
                s\<lparr>canvasRef := Some canvas',
                  inferences := inferences s + 1,
                  inflight := inflight s
                    @ [\<lparr>awaited_by = caller, cyc_scaleX = scaleX, cyc_scaleY = scaleY\<rparr>]\<rparr>)
      | _ \<Rightarrow> (Returned, s))"

text \<open>The rest of the \<open>try\<close> block once \<open>estimateFaces\<close> has resolved (lines 95-123);
  \<open>stringify\<close> stands for \<open>JSON.stringify\<close>.\<close>

definition detectFaces_resolved ::
  "(FaceDetection list \<Rightarrow> string) \<Rightarrow> cycle \<Rightarrow> FaceDetection list \<Rightarrow> camera \<Rightarrow> camera" where
  "detectFaces_resolved stringify cyc preds s =
     (let s1 = s\<lparr>predictions := preds, frameCount := frameCount s + 1\<rparr>;
          s2 = s1\<lparr>debugInfo := ''Frame: '' @ showNat (frameCount s1)
                    @ '', Raw predictions: '' @ stringify preds\<rparr>
      in s2\<lparr>canvasRef :=
              map_option (draw_predictions (cyc_scaleX cyc) (cyc_scaleY cyc) preds)
                (canvasRef s2)\<rparr>)"

text \<open>The \<open>catch\<close> block (lines 126-128); \<open>err\<close> is the text \<open>${err}\<close> prints.\<close>

definition detectFaces_rejected :: "string \<Rightarrow> camera \<Rightarrow> camera" where
  "detectFaces_rejected err s =
     s\<lparr>error := Some ''Face detection failed. Please try again.'',
       debugInfo := ''Error: '' @ err\<rparr>"

text \<open>\<open>runDetection\<close> of effect instance \<open>e\<close> (lines 143-146): when \<open>detectFaces\<close>
  returns a settled promise the continuation runs in the same task; otherwise it runs
  when the suspended call finishes.\<close>

definition runDetection :: "nat \<Rightarrow> camera \<Rightarrow> camera" where
  "runDetection e s =
     (case detectFaces (Some e) s of
        (Returned, s') \<Rightarrow> schedule e s'
      | (Suspended, s') \<Rightarrow> s')"

text \<open>The continuation of whoever awaits a call of \<open>detectFaces\<close> that has finished.\<close>

definition resume :: "cycle \<Rightarrow> camera \<Rightarrow> camera" where
  "resume cyc s = (case awaited_by cyc of Some e \<Rightarrow> schedule e s | None \<Rightarrow> s)"

text \<open>The detection effect (lines 140-157): the cleanup of the current instance, then
  the body of a new instance.\<close>

definition detection_effect :: "camera \<Rightarrow> camera" where
  "detection_effect s =
     (let s2 = next_effect s
      in if isStreaming s2 \<and> model s2 \<noteq> None then runDetection (effect s2) s2 else s2)"

text \<open>After a handler has run React renders; the effect is re-run when a dependency
  of \<open>[isStreaming, model]\<close> differs from the previous render.\<close>

definition commit :: "camera \<Rightarrow> camera \<Rightarrow> camera" where
  "commit prev s =
     (if isStreaming s \<noteq> isStreaming prev \<or> model s \<noteq> model prev
      then detection_effect s else s)"

text \<open>The resize listener (lines 160-165).\<close>

definition handleResize :: "camera \<Rightarrow> camera" where
  "handleResize s =
     (case (canvasRef s, videoRef s) of
        (Some canvas, Some video) \<Rightarrow>
          s\<lparr>canvasRef := Some (set_size (clientWidth video) (clientHeight video) canvas)\<rparr>
      | _ \<Rightarrow> s)"

datatype event =
    ModelLoaded BlazeFaceModel
  | ModelLoadFailed string
  | StartClick
  | CameraGranted MediaStream
  | CameraDenied
  | LoadedMetadata
  | StopClick
  | TimerFires nat
  | FrameCallback
  | InferenceResolves nat "FaceDetection list"
  | InferenceRejects nat string
  | VideoChanges nat real real real real
  | WindowResize

text \<open>
  An event that cannot happen in a state leaves it unchanged: a promise that is not
  pending does not settle, a disabled button is not clicked (\<open>disabled=\<close> of lines 199
  and 202), a timer that is not pending does not fire. \<open>InferenceResolves i\<close> and
  \<open>InferenceRejects i\<close> settle the \<open>i\<close>-th suspended call.
\<close>

fun step :: "(FaceDetection list \<Rightarrow> string) \<Rightarrow> event \<Rightarrow> camera \<Rightarrow> camera" where
  "step J (ModelLoaded m) s =
     (if loadPending s then commit s (loadModel_loaded m (s\<lparr>loadPending := False\<rparr>)) else s)"
| "step J (ModelLoadFailed err) s =
     (if loadPending s then loadModel_failed (s\<lparr>loadPending := False\<rparr>) else s)"
| "step J StartClick s =
     (if isStreaming s \<or> isLoading s then s
      else s\<lparr>cameraRequests := cameraRequests s + 1\<rparr>)"
| "step J (CameraGranted stream) s =
     (if cameraRequests s = 0 then s
      else startCamera_granted stream
             (s\<lparr>cameraRequests := cameraRequests s - 1,
                liveTracks := liveTracks s \<union> set stream\<rparr>))"
| "step J CameraDenied s =
     (if cameraRequests s = 0 then s
      else startCamera_denied (s\<lparr>cameraRequests := cameraRequests s - 1\<rparr>))"
| "step J LoadedMetadata s =
     (case videoRef s of
        Some video \<Rightarrow>
          if onloadedmetadata video \<and> srcObject video \<noteq> None
          then commit s (loadedmetadata video s)
          else s
      | None \<Rightarrow> s)"
| "step J StopClick s =
     (if \<not> isStreaming s \<or> isLoading s then s else commit s (stopCamera s))"
| "step J (TimerFires t) s =
     (case find (\<lambda>x. tid x = t) (timers s) of
        Some x \<Rightarrow> runDetection (owner x) (unqueue t s)
      | None \<Rightarrow> s)"
| "step J FrameCallback s =
     (if frameCallbacks s = 0 then s
      else snd (detectFaces None (s\<lparr>frameCallbacks := frameCallbacks s - 1\<rparr>)))"
| "step J (InferenceResolves i preds) s =
     (if i < length (inflight s) then
        resume (inflight s ! i)
          (detectFaces_resolved J (inflight s ! i) preds
             (s\<lparr>inflight := take i (inflight s) @ drop (Suc i) (inflight s)\<rparr>))
      else s)"
| "step J (InferenceRejects i err) s =
     (if i < length (inflight s) then
        resume (inflight s ! i)
          (detectFaces_rejected err
             (s\<lparr>inflight := take i (inflight s) @ drop (Suc i) (inflight s)\<rparr>))
      else s)"
| "step J (VideoChanges rs cw ch vw vh) s = video_changes rs cw ch vw vh s"
| "step J WindowResize s = handleResize s"

text \<open>A run: the events of a list, in order.\<close>

definition run :: "(FaceDetection list \<Rightarrow> string) \<Rightarrow> event list \<Rightarrow> camera \<Rightarrow> camera" where
  "run J es s = fold (step J) es s"

section \<open>The results panel of camera.tsx\<close>

text \<open>
  Reading \<open>face.landmarks[k][0]\<close>: past the end of the array \<open>face.landmarks[k]\<close>
  is \<open>undefined\<close>, and reading a property of \<open>undefined\<close> throws a \<open>TypeError\<close>.
\<close>

datatype js_error = TypeError

definition landmark_at :: "FaceDetection \<Rightarrow> nat \<Rightarrow> js_error + real \<times> real" where
  "landmark_at face k =
     (if k < length (landmarks face) then Inr (landmarks face ! k) else Inl TypeError)"

text \<open>Expressions are evaluated in order; the first that throws ends the evaluation.\<close>

fun collect :: "('e + 'a) list \<Rightarrow> 'e + 'a list" where
  "collect [] = Inr []"
| "collect (Inl e # xs) = Inl e"
| "collect (Inr x # xs) = (case collect xs of Inl e \<Rightarrow> Inl e | Inr ys \<Rightarrow> Inr (x # ys))"

text \<open>One landmark line of the list item (lines 220-225); \<open>toFixed d x\<close> stands for
  \<open>x.toFixed(d)\<close>.\<close>

definition landmark_line ::
  "(nat \<Rightarrow> real \<Rightarrow> string) \<Rightarrow> FaceDetection \<Rightarrow> string \<times> nat \<Rightarrow> js_error + string" where
  "landmark_line toFixed face lk =
     (case landmark_at face (snd lk) of
        Inl e \<Rightarrow> Inl e
      | Inr p \<Rightarrow> Inr (''- '' @ fst lk @ '': ('' @ toFixed 2 (fst p) @ '', ''
                       @ toFixed 2 (snd p) @ '')''))"

text \<open>The list item of one face (lines 214-226).\<close>

definition face_item ::
  "(nat \<Rightarrow> real \<Rightarrow> string) \<Rightarrow> FaceDetection \<times> nat \<Rightarrow> js_error + string list" where
  "face_item toFixed fi =
     (let face = fst fi; index = snd fi in
      case collect (map (landmark_line toFixed face)
             [(''Right eye'', 0), (''Left eye'', 1), (''Nose'', 2), (''Mouth'', 3),
              (''Right ear'', 4), (''Left ear'', 5)]) of
        Inl e \<Rightarrow> Inl e
      | Inr ls \<Rightarrow>
          Inr ([''Face '' @ showNat (index + 1) @ '':'',
                ''Probability: '' @ toFixed 4 (probability face),
                ''Top-left: ('' @ toFixed 2 (fst (topLeft face)) @ '', ''
                   @ toFixed 2 (snd (topLeft face)) @ '')'',
                ''Bottom-right: ('' @ toFixed 2 (fst (bottomRight face)) @ '', ''
                   @ toFixed 2 (snd (bottomRight face)) @ '')'',
                ''Landmarks:''] @ ls))"

text \<open>The panel (lines 208-233): absent unless streaming with a model; otherwise one
  item per stored detection, or the text for none.\<close>

definition results_panel ::
  "(nat \<Rightarrow> real \<Rightarrow> string) \<Rightarrow> camera \<Rightarrow> js_error + string list list" where
  "results_panel toFixed s =
     (if isStreaming s \<and> model s \<noteq> None then
        (if length (predictions s) > 0
         then collect (map (face_item toFixed)
                (zip (predictions s) [0 ..< length (predictions s)]))
         else Inr [[''No faces detected'']])
      else Inr [])"

section \<open>The cropped-face variant\<close>

text \<open>The component of src/unnamed/part_001; line numbers in this section are its
  own. Its \<open>blazefaceModel\<close> is the \<open>model\<close> of camera.tsx; it adds a landmark model
  and the list of cropped faces.\<close>

datatype FaceLandmarksDetector = FaceLandmarksDetector

text \<open>An element of the landmark model's output, reduced to its key points: the
  component only stores and prints it.\<close>

datatype Face = Face "(real \<times> real) list"

text \<open>\<open>interface CroppedFace\<close> (lines 17-20), with its fields \<open>image\<close> and
  \<open>landmarks\<close>.\<close>

record CroppedFace =
  face_image :: string
  face_landmarks :: "Face list"

text \<open>
  \<open>cropFace\<close> (lines 94-114). The two multipliers are the component's constants
  \<open>scaleFactor\<close> and \<open>yScalerPos\<close>, which the function reads from its enclosing
  scope; \<open>tempCanvas\<close> is the element \<open>document.createElement('canvas')\<close> returned.
  \<open>DrawImage\<close> draws from the video frame.
\<close>

definition cropFace :: "real \<Rightarrow> real \<Rightarrow> canvas_elem \<Rightarrow> FaceDetection \<Rightarrow> canvas_elem" where
  "cropFace scaleFactor yScalerPos tempCanvas face =
     (if \<not> has2d tempCanvas then tempCanvas
      else
        let (x, y) = topLeft face;
            width = fst (bottomRight face) - fst (topLeft face);
            height = snd (bottomRight face) - snd (topLeft face);
            scaledWidth = width * scaleFactor;
            scaledHeight = height * scaleFactor;
            scaledX = x - (scaledWidth - width) / 2;
            scaledY = y * yScalerPos - (scaledHeight - height) / 2
        in (set_size scaledWidth scaledHeight tempCanvas)
             \<lparr>ops := ops tempCanvas
               @ [DrawImage scaledX scaledY scaledWidth scaledHeight
                    0 0 scaledWidth scaledHeight]\<rparr>)"

text \<open>The drawing of one face in the loop (lines 147-165).\<close>

definition draw_face_crop :: "real \<Rightarrow> real \<Rightarrow> real \<Rightarrow> FaceDetection \<Rightarrow> canvas_op list" where
  "draw_face_crop yScalerPos scaleX scaleY face =
     (let (x, y) = topLeft face;
          (width, height) = (fst (bottomRight face) - fst (topLeft face),
                             snd (bottomRight face) - snd (topLeft face))
      in StrokeRect (x * scaleX) (y * scaleY * yScalerPos) (width * scaleX) (height * scaleY)
         # concat (map (draw_landmark scaleX scaleY) (landmarks face)))"

text \<open>The component's two constants (lines 35-36).\<close>

definition scaleFactor :: real where
  "scaleFactor = 2"

definition yScalerPos :: real where
  "yScalerPos = 85 / 100"

text \<open>Reading the log: the top of a rectangle.\<close>

fun rect_top :: "canvas_op \<Rightarrow> real option" where
  "rect_top (StrokeRect x y w h) = Some y"
| "rect_top _ = None"

text \<open>
  A call of the variant's \<open>detectFaces\<close>, suspended either at
  \<open>await blazefaceModel.estimateFaces\<close> (holding the scale factors) or, inside the
  loop, at \<open>await landmarkModel.estimateFaces(croppedCanvas)\<close> (holding besides the
  cropped canvas, the predictions of the cycle, the faces the loop has still to visit and
  \<open>newCroppedFaces\<close>).
\<close>

datatype crop_cycle =
    AwaitBlaze real real
  | AwaitLandmark real real canvas_elem "FaceDetection list" "FaceDetection list"
      "CroppedFace list"

text \<open>\<open>offscreen2d\<close> says whether a canvas made by \<open>cropFace\<close> yields a 2D context;
  \<open>clock\<close> is what \<open>new Date().toLocaleTimeString()\<close> returns;
  \<open>landmarkInferences\<close> counts the calls of the landmark model.\<close>

record crop_camera = component +
  blazefaceModel :: "BlazeFaceModel option"
  landmarkModel :: "FaceLandmarksDetector option"
  croppedFaces :: "CroppedFace list"
  offscreen2d :: bool
  clock :: string
  landmarkInferences :: nat
  inflight_crop :: "crop_cycle list"

text \<open>\<open>JSON.stringify(predictions, null, 2)\<close> and \<open>canvas.toDataURL()\<close>.\<close>

record platform =
  stringify :: "FaceDetection list \<Rightarrow> string"
  toDataURL :: "canvas_elem \<Rightarrow> string"

definition mounted_crop :: "bool \<Rightarrow> bool \<Rightarrow> crop_camera" where
  "mounted_crop ctx tempCtx =
     \<lparr>isStreaming = False, error = None, isLoading = True,
      predictions = [], debugInfo = [],
      videoRef = Some \<lparr>srcObject = None, onloadedmetadata = False, paused = True,
        readyState = 0, clientWidth = 0, clientHeight = 0, videoWidth = 0,
        videoHeight = 0\<rparr>,
      canvasRef = Some (createElement_canvas ctx),
      liveTracks = {}, loadPending = True, cameraRequests = 0,
      effect = 0, timeoutId = (\<lambda>e. None), nextTimer = 1, timers = [],
      frameCallbacks = 0, inferences = 0,
      blazefaceModel = None, landmarkModel = None, croppedFaces = [],
      offscreen2d = tempCtx, clock = [], landmarkInferences = 0, inflight_crop = []\<rparr>"

text \<open>\<open>stopCamera\<close> of the variant (lines 56-66).\<close>

definition stopCamera_crop :: "crop_camera \<Rightarrow> crop_camera" where
  "stopCamera_crop s =
     (case videoRef s of
        Some video \<Rightarrow>
          (case srcObject video of
             Some tracks \<Rightarrow>
               s\<lparr>liveTracks := liveTracks s - set tracks,
                 videoRef := Some (video\<lparr>srcObject := None\<rparr>),
                 isStreaming := False,
                 predictions := [],
                 croppedFaces := [],
                 debugInfo := []\<rparr>
           | None \<Rightarrow> s)
      | None \<Rightarrow> s)"

text \<open>\<open>loadModels\<close> (lines 68-92): after \<open>blazeface.load()\<close> has resolved (line 72),
  after \<open>createDetector\<close> has resolved (lines 82-85), and the \<open>catch\<close> branch.\<close>

definition loadModels_blazeface :: "BlazeFaceModel \<Rightarrow> crop_camera \<Rightarrow> crop_camera" where
  "loadModels_blazeface blazefaceLoadedModel s = s\<lparr>blazefaceModel := Some blazefaceLoadedModel\<rparr>"

definition loadModels_landmark :: "FaceLandmarksDetector \<Rightarrow> crop_camera \<Rightarrow> crop_camera" where
  "loadModels_landmark landmarkLoadedModel s =
     s\<lparr>landmarkModel := Some landmarkLoadedModel, isLoading := False,
       debugInfo := ''Models loaded successfully''\<rparr>"

definition loadModels_failed :: "string \<Rightarrow> crop_camera \<Rightarrow> crop_camera" where
  "loadModels_failed err s =
     s\<lparr>error := Some ''Failed to load the face detection models.'',
       debugInfo := ''Error loading models: '' @ err,
       isLoading := False\<rparr>"

text \<open>\<open>detectFaces\<close> of the variant up to its first suspension (lines 117-136).\<close>

definition detectFaces_crop :: "crop_camera \<Rightarrow> crop_camera" where
  "detectFaces_crop s =
     (case (videoRef s, blazefaceModel s, canvasRef s, landmarkModel s) of
        (Some video, Some bm, Some canvas, Some lm) \<Rightarrow>
          if \<not> has2d canvas then s
          else if readyState video \<noteq> HAVE_ENOUGH_DATA
          then s\<lparr>frameCallbacks := frameCallbacks s + 1\<rparr>
          else
            let canvas' = set_size (clientWidth video) (clientHeight video) canvas;
                (scaleX, scaleY) = scale_factors video
            in s\<lparr>canvasRef := Some canvas',
                 inferences := inferences s + 1,
                 inflight_crop := inflight_crop s @ [AwaitBlaze scaleX scaleY]\<rparr>
      | _ \<Rightarrow> s)"

text \<open>Lines 137-144, once the face detector has resolved.\<close>

definition faces_resolved :: "FaceDetection list \<Rightarrow> crop_camera \<Rightarrow> crop_camera" where
  "faces_resolved preds s =
     s\<lparr>predictions := preds,
       canvasRef := map_option
         (\<lambda>canvas. canvas\<lparr>ops := ops canvas
            @ [ClearRect 0 0 (real (width canvas)) (real (height canvas)),
               SetFillStyle ''rgba(255, 0, 0, 0.5)'',
               SetStrokeStyle ''#FF0000'',
               SetLineWidth 2]\<rparr>) (canvasRef s)\<rparr>"

text \<open>
  The \<open>for\<close> loop (lines 146-170) and what follows it (lines 172-175), for the
  \<open>i\<close>-th suspended call: with no face left the results are stored and the call ends;
  otherwise the next face is drawn and cropped and the call suspends on the landmark
  model.
\<close>

definition for_faces ::
  "platform \<Rightarrow> nat \<Rightarrow> real \<Rightarrow> real \<Rightarrow> FaceDetection list \<Rightarrow> FaceDetection list
     \<Rightarrow> CroppedFace list \<Rightarrow> crop_camera \<Rightarrow> crop_camera" where
  "for_faces P i scaleX scaleY preds faces newCroppedFaces s =
     (case faces of
        [] \<Rightarrow>
          s\<lparr>croppedFaces := newCroppedFaces,
            debugInfo := ''Detected '' @ showNat (length preds) @ '' faces at '' @ clock s
              @ ''. Scaling: yScalerPos=0.85, scaleFactor=2'' @ [CHR 0x0A]
              @ ''Predictions:'' @ [CHR 0x0A] @ stringify P preds,
            inflight_crop := take i (inflight_crop s) @ drop (Suc i) (inflight_crop s)\<rparr>
      | face # rest \<Rightarrow>
          let croppedCanvas =
                cropFace scaleFactor yScalerPos (createElement_canvas (offscreen2d s)) face
          in s\<lparr>canvasRef := map_option
                 (\<lambda>canvas. canvas\<lparr>ops := ops canvas
                    @ draw_face_crop yScalerPos scaleX scaleY face\<rparr>) (canvasRef s),
               landmarkInferences := landmarkInferences s + 1,
               inflight_crop := (inflight_crop s)
                 [i := AwaitLandmark scaleX scaleY croppedCanvas preds rest newCroppedFaces]\<rparr>)"

text \<open>The \<open>catch\<close> block (lines 178-180), ending the \<open>i\<close>-th suspended call.\<close>

definition cycle_rejected :: "nat \<Rightarrow> string \<Rightarrow> crop_camera \<Rightarrow> crop_camera" where
  "cycle_rejected i err s =
     s\<lparr>error := Some ''Face detection failed. Please try again.'',
       debugInfo := ''Error: '' @ err,
       inflight_crop := take i (inflight_crop s) @ drop (Suc i) (inflight_crop s)\<rparr>"

text \<open>\<open>runDetection\<close> of the variant (lines 195-198): \<open>detectFaces()\<close> is called
  and not awaited, and the next run is scheduled in the same task.\<close>

definition runDetection_crop :: "nat \<Rightarrow> crop_camera \<Rightarrow> crop_camera" where
  "runDetection_crop e s = schedule e (detectFaces_crop s)"

text \<open>The detection effect of the variant (lines 192-209). Of its dependencies,
  \<open>detectFaces\<close> changes exactly when one of the two models changes.\<close>

definition detection_effect_crop :: "crop_camera \<Rightarrow> crop_camera" where
  "detection_effect_crop s =
     (let s2 = next_effect s
      in if isStreaming s2 \<and> blazefaceModel s2 \<noteq> None \<and> landmarkModel s2 \<noteq> None
         then runDetection_crop (effect s2) s2 else s2)"

definition commit_crop :: "crop_camera \<Rightarrow> crop_camera \<Rightarrow> crop_camera" where
  "commit_crop prev s =
     (if isStreaming s \<noteq> isStreaming prev \<or> blazefaceModel s \<noteq> blazefaceModel prev
         \<or> landmarkModel s \<noteq> landmarkModel prev
      then detection_effect_crop s else s)"

datatype crop_event =
    BlazefaceLoaded BlazeFaceModel
  | LandmarkLoaded FaceLandmarksDetector
  | ModelsLoadFailed string
  | StartClicked
  | AccessGranted MediaStream
  | AccessDenied
  | MetadataLoaded
  | StopClicked
  | TimerFired nat
  | FrameCalled
  | FacesResolve nat "FaceDetection list"
  | LandmarksResolve nat "Face list"
  | CycleRejects nat string
  | VideoChanged nat real real real real
  | ClockTicks string

text \<open>\<open>FacesResolve i\<close> settles the face detector's promise of the \<open>i\<close>-th suspended
  call, \<open>LandmarksResolve i\<close> the landmark model's, \<open>CycleRejects i\<close> rejects
  whichever of the two the call waits for.\<close>

fun step_crop :: "platform \<Rightarrow> crop_event \<Rightarrow> crop_camera \<Rightarrow> crop_camera" where
  "step_crop P (BlazefaceLoaded m) s =
     (if loadPending s \<and> blazefaceModel s = None
      then commit_crop s (loadModels_blazeface m s) else s)"
| "step_crop P (LandmarkLoaded m) s =
     (if loadPending s \<and> blazefaceModel s \<noteq> None
      then commit_crop s (loadModels_landmark m (s\<lparr>loadPending := False\<rparr>)) else s)"
| "step_crop P (ModelsLoadFailed err) s =
     (if loadPending s then loadModels_failed err (s\<lparr>loadPending := False\<rparr>) else s)"
| "step_crop P StartClicked s =
     (if isStreaming s \<or> isLoading s then s
      else s\<lparr>cameraRequests := cameraRequests s + 1\<rparr>)"
| "step_crop P (AccessGranted stream) s =
     (if cameraRequests s = 0 then s
      else startCamera_granted stream
             (s\<lparr>cameraRequests := cameraRequests s - 1,
                liveTracks := liveTracks s \<union> set stream\<rparr>))"
| "step_crop P AccessDenied s =
     (if cameraRequests s = 0 then s
      else startCamera_denied (s\<lparr>cameraRequests := cameraRequests s - 1\<rparr>))"
| "step_crop P MetadataLoaded s =
     (case videoRef s of
        Some video \<Rightarrow>
          if onloadedmetadata video \<and> srcObject video \<noteq> None
          then commit_crop s (loadedmetadata video s)
          else s
      | None \<Rightarrow> s)"
| "step_crop P StopClicked s =
     (if \<not> isStreaming s \<or> isLoading s then s else commit_crop s (stopCamera_crop s))"
| "step_crop P (TimerFired t) s =
     (case find (\<lambda>x. tid x = t) (timers s) of
        Some x \<Rightarrow> runDetection_crop (owner x) (unqueue t s)
      | None \<Rightarrow> s)"
| "step_crop P FrameCalled s =
     (if frameCallbacks s = 0 then s
      else detectFaces_crop (s\<lparr>frameCallbacks := frameCallbacks s - 1\<rparr>))"
| "step_crop P (FacesResolve i preds) s =
     (if i < length (inflight_crop s) then
        (case inflight_crop s ! i of
           AwaitBlaze scaleX scaleY \<Rightarrow>
             for_faces P i scaleX scaleY preds preds [] (faces_resolved preds s)
         | AwaitLandmark scaleX scaleY croppedCanvas ps rest acc \<Rightarrow> s)
      else s)"
| "step_crop P (LandmarksResolve i lms) s =
     (if i < length (inflight_crop s) then
        (case inflight_crop s ! i of
           AwaitBlaze scaleX scaleY \<Rightarrow> s
         | AwaitLandmark scaleX scaleY croppedCanvas preds rest acc \<Rightarrow>
             for_faces P i scaleX scaleY preds rest
               (acc @ [\<lparr>face_image = toDataURL P croppedCanvas, face_landmarks = lms\<rparr>]) s)
      else s)"
| "step_crop P (CycleRejects i err) s =
     (if i < length (inflight_crop s) then cycle_rejected i err s else s)"
| "step_crop P (VideoChanged rs cw ch vw vh) s = video_changes rs cw ch vw vh s"
| "step_crop P (ClockTicks now) s = s\<lparr>clock := now\<rparr>"

definition run_crop :: "platform \<Rightarrow> crop_event list \<Rightarrow> crop_camera \<Rightarrow> crop_camera" where
  "run_crop P es s = fold (step_crop P) es s"

section \<open>Example inputs\<close>

text \<open>A detection as the face detector returns it, with its six landmarks.\<close>

definition example_face :: FaceDetection where
  "example_face =
     \<lparr>topLeft = (100, 100), bottomRight = (200, 200), probability = 1,
      landmarks = [(120, 130), (160, 130), (140, 150), (140, 170), (105, 140), (195, 140)]\<rparr>"

text \<open>The model has loaded, the camera has been granted, and the video (native size
  640x480, displayed at 320x240) has enough data.\<close>

definition ready_events :: "event list" where
  "ready_events =
     [ModelLoaded BlazeFaceModel, StartClick, CameraGranted [0],
      VideoChanges 4 320 240 640 480]"

definition five_landmarks :: FaceDetection where
  "five_landmarks =
     \<lparr>topLeft = (100, 100), bottomRight = (200, 200), probability = 1,
      landmarks = [(120, 130), (160, 130), (140, 150), (140, 170), (105, 140)]\<rparr>"

text \<open>A detection with a fractional width and a bottom edge above its top edge.\<close>

definition fractional_face :: FaceDetection where
  "fractional_face =
     \<lparr>topLeft = (100, 100), bottomRight = (200 + 1 / 4, 90), probability = 1,
      landmarks = [(120, 95), (160, 95), (140, 97), (140, 98), (105, 96), (195, 96)]\<rparr>"

text \<open>A face whose box starts above the frame.\<close>

definition face_above_frame :: FaceDetection where
  "face_above_frame =
     \<lparr>topLeft = (10, - 20), bottomRight = (50, 30), probability = 1, landmarks = [(30, 5)]\<rparr>"

text \<open>Then the video's metadata loads: the component streams and the first detection
  cycle is waiting for its inference.\<close>

definition streaming_events :: "event list" where
  "streaming_events = ready_events @ [LoadedMetadata]"

text \<open>Then Stop Camera is clicked while that inference is pending, and the inference
  resolves afterwards.\<close>

definition stop_in_flight :: "event list" where
  "stop_in_flight = streaming_events @ [StopClick, InferenceResolves 0 [example_face]]"

definition example_platform :: platform where
  "example_platform = \<lparr>stringify = (\<lambda>ps. ''[...]''), toDataURL = (\<lambda>c. ''data:,'')\<rparr>"

text \<open>The variant: both models have loaded, the camera has been granted, the video has
  enough data and its metadata has loaded.\<close>

definition crop_streaming_events :: "crop_event list" where
  "crop_streaming_events =
     [BlazefaceLoaded BlazeFaceModel, LandmarkLoaded FaceLandmarksDetector, StartClicked,
      AccessGranted [0], VideoChanged 4 320 240 640 480, MetadataLoaded]"

text \<open>camera.tsx: the metadata loads before the video has enough data, so the first
  cycle re-queues \<open>detectFaces\<close> by \<open>requestAnimationFrame\<close> and \<open>runDetection\<close>
  sets its timer; the video becomes ready, the frame callback starts an inference, and
  the timer fires while that inference is pending.\<close>

definition not_ready_events :: "event list" where
  "not_ready_events =
     [ModelLoaded BlazeFaceModel, StartClick, CameraGranted [0], LoadedMetadata,
      VideoChanges 4 320 240 640 480, FrameCallback, TimerFires 1]"

text \<open>The variant: the timer fires while the first cycle waits for the face detector;
  the first cycle's detector resolves with one face, the second cycle's with none, and
  then the first cycle's landmark call resolves.\<close>

definition overlapping_events :: "crop_event list" where
  "overlapping_events =
     crop_streaming_events
     @ [TimerFired 1, FacesResolve 0 [example_face], FacesResolve 1 [],
        LandmarksResolve 0 [Face []]]"

text \<open>The variant: Stop Camera is clicked while the first cycle waits for the landmark
  model of its one face, which resolves afterwards.\<close>

definition stopped_mid_cycle :: "crop_event list" where
  "stopped_mid_cycle =
     crop_streaming_events
     @ [FacesResolve 0 [example_face], StopClicked, LandmarksResolve 0 [Face []]]"

section \<open>Properties of states\<close>

text \<open>No detection has been scheduled or made.\<close>

definition no_detection :: "camera \<Rightarrow> bool" where
  "no_detection s =
     (timers s = [] \<and> frameCallbacks s = 0 \<and> inflight s = [] \<and> inferences s = 0)"

definition unloaded :: "camera \<Rightarrow> bool" where
  "unloaded s = (model s = None \<and> no_detection s)"

text \<open>The loop of the current effect instance goes on: its timer is pending, or its
  \<open>runDetection\<close> awaits a suspended call.\<close>

definition loop_alive :: "camera \<Rightarrow> bool" where
  "loop_alive s =
     ((\<exists>t \<in> set (timers s). owner t = effect s)
      \<or> (\<exists>c \<in> set (inflight s). awaited_by c = Some (effect s)))"

text \<open>Timer ids are below the next id to be given and no two pending timers share
  one.\<close>

definition timers_fresh :: "camera \<Rightarrow> bool" where
  "timers_fresh s =
     ((\<forall>t \<in> set (timers s). tid t < nextTimer s) \<and> distinct (map tid (timers s)))"

text \<open>While the component streams with a model, the loop of the current effect
  instance goes on.\<close>

definition sound :: "camera \<Rightarrow> bool" where
  "sound s = (timers_fresh s \<and> (isStreaming s \<and> model s \<noteq> None \<longrightarrow> loop_alive s))"

text \<open>
  What a suspended call of the variant holds while it waits for the landmark model: it
  has visited fewer faces than its predictions, the cropped canvas is the crop of the
  face it is at, the faces still to visit are those after it, and the snapshots taken so
  far are those of the crops of the faces before it.
\<close>

definition cycle_ok :: "platform \<Rightarrow> bool \<Rightarrow> crop_cycle \<Rightarrow> bool" where
  "cycle_ok P t cyc =
     (case cyc of
        AwaitBlaze sx sy \<Rightarrow> True
      | AwaitLandmark sx sy croppedCanvas preds rest acc \<Rightarrow>
          length acc < length preds
          \<and> rest = drop (Suc (length acc)) preds
          \<and> croppedCanvas =
              cropFace scaleFactor yScalerPos (createElement_canvas t) (preds ! length acc)
          \<and> map face_image acc =
              map (\<lambda>face. toDataURL P
                     (cropFace scaleFactor yScalerPos (createElement_canvas t) face))
                (take (length acc) preds))"

definition cycles_ok :: "platform \<Rightarrow> bool \<Rightarrow> crop_camera \<Rightarrow> bool" where
  "cycles_ok P t c =
     (offscreen2d c = t \<and> (\<forall>cyc \<in> set (inflight_crop c). cycle_ok P t cyc))"

section \<open>The overlay rectangle\<close>

lemma rectangles_append: "rectangles (xs @ ys) = rectangles xs @ rectangles ys"
  by (simp add: rectangles_def)

lemma rectangles_Nil: "rectangles [] = []"
  by (simp add: rectangles_def)

lemma rectangles_Cons:
  "rectangles (x # xs) = (if is_StrokeRect x then x # rectangles xs else rectangles xs)"
  by (simp add: rectangles_def)

lemma rectangles_landmarks:
  "rectangles (concat (map (draw_landmark sx sy) ls)) = []"
  by (induction ls) (simp_all add: rectangles_Nil rectangles_Cons draw_landmark_def)

lemma rectangles_draw_face:
  "rectangles (draw_face sx sy face) =
     [StrokeRect (fst (topLeft face) * sx) (snd (topLeft face) * sy)
        ((fst (bottomRight face) - fst (topLeft face)) * sx)
        ((snd (bottomRight face) - snd (topLeft face)) * sy)]"
proof -
  have "rectangles (draw_face sx sy face) =
      rectangles [StrokeRect (fst (topLeft face) * sx) (snd (topLeft face) * sy)
        ((fst (bottomRight face) - fst (topLeft face)) * sx)
        ((snd (bottomRight face) - snd (topLeft face)) * sy)]
      @ rectangles (concat (map (draw_landmark sx sy) (landmarks face)))"
    by (simp add: draw_face_def rectangles_Nil rectangles_Cons split_beta)
  then show ?thesis
    by (simp add: rectangles_landmarks rectangles_Nil rectangles_Cons)
qed

lemma rectangles_faces:
  "rectangles (concat (map (draw_face sx sy) preds)) =
     map (\<lambda>face. StrokeRect (fst (topLeft face) * sx) (snd (topLeft face) * sy)
        ((fst (bottomRight face) - fst (topLeft face)) * sx)
        ((snd (bottomRight face) - snd (topLeft face)) * sy)) preds"
  by (induction preds) (simp_all add: rectangles_Nil rectangles_append rectangles_draw_face)

lemmas run_simps = run_def mounted_def createElement_canvas_def commit_def
  loadModel_loaded_def loadModel_failed_def detection_effect_def next_effect_def
  effect_cleanup_def startCamera_granted_def startCamera_denied_def video_changes_def
  loadedmetadata_def stopCamera_def runDetection_def detectFaces_def schedule_def
  HAVE_ENOUGH_DATA_def scale_factors_def detectFaces_resolved_def detectFaces_rejected_def
  resume_def unqueue_def handleResize_def set_size_def unsigned_long_def

lemmas run_crop_simps = run_crop_def mounted_crop_def createElement_canvas_def
  commit_crop_def loadModels_blazeface_def loadModels_landmark_def loadModels_failed_def
  detection_effect_crop_def effect_cleanup_def next_effect_def runDetection_crop_def
  detectFaces_crop_def schedule_def startCamera_granted_def startCamera_denied_def
  stopCamera_crop_def HAVE_ENOUGH_DATA_def scale_factors_def loadedmetadata_def
  faces_resolved_def for_faces_def cycle_rejected_def unqueue_def video_changes_def
  set_size_def unsigned_long_def

lemma rectangles_draw_predictions:
  "rectangles (ops (draw_predictions sx sy ps c)) =
     rectangles (ops c)
     @ map (\<lambda>face. StrokeRect (fst (topLeft face) * sx) (snd (topLeft face) * sy)
         ((fst (bottomRight face) - fst (topLeft face)) * sx)
         ((snd (bottomRight face) - snd (topLeft face)) * sy)) ps"
  by (simp add: draw_predictions_def rectangles_append rectangles_Cons rectangles_faces)

lemma detectFaces_ready:
  assumes "videoRef s = Some video" and "canvasRef s = Some canvas" and "has2d canvas"
    and "model s = Some m" and "readyState video = HAVE_ENOUGH_DATA"
  shows "detectFaces caller s =
     (Suspended,
      s\<lparr>canvasRef := Some (set_size (clientWidth video) (clientHeight video) canvas),
        inferences := inferences s + 1,
        inflight := inflight s
          @ [\<lparr>awaited_by = caller, cyc_scaleX = clientWidth video / videoWidth video,
               cyc_scaleY = clientHeight video / videoHeight video\<rparr>]\<rparr>)"
  using assms by (simp add: detectFaces_def scale_factors_def)

lemma canvas_resume: "canvasRef (resume cyc s) = canvasRef s"
  by (simp add: resume_def schedule_def split: option.splits)

text \<open>
  Claim C1. A detection cycle that starts on a video with enough data and whose inference
  resolves with \<open>preds\<close> adds to the overlay exactly one rectangle per detection, in
  the order of the detections, each at \<open>(topLeft.x * scaleX, topLeft.y * scaleY)\<close>
  with width \<open>(bottomRight.x - topLeft.x) * scaleX\<close> and height
  \<open>(bottomRight.y - topLeft.y) * scaleY\<close>, where \<open>scaleX\<close> is the displayed width
  over the native width and \<open>scaleY\<close> the displayed height over the native height: the
  two axes are scaled independently. (The witness is the example: native 640x480,
  displayed 320x240, corners (100,100) and (200,200), rectangle at (50,50) of 50x50.)
\<close>

theorem overlay_rectangle_scaled:
  assumes "videoRef s = Some video" and "canvasRef s = Some canvas" and "has2d canvas"
    and "model s = Some m" and "readyState video = HAVE_ENOUGH_DATA"
  shows "\<exists>canvas'.
     canvasRef (step J (InferenceResolves (length (inflight s)) preds)
                  (snd (detectFaces caller s))) = Some canvas'
     \<and> rectangles (ops canvas') =
         rectangles (ops canvas)
         @ map (\<lambda>face. StrokeRect
                  (fst (topLeft face) * (clientWidth video / videoWidth video))
                  (snd (topLeft face) * (clientHeight video / videoHeight video))
                  ((fst (bottomRight face) - fst (topLeft face))
                     * (clientWidth video / videoWidth video))
                  ((snd (bottomRight face) - snd (topLeft face))
                     * (clientHeight video / videoHeight video))) preds"
proof -
  let ?c = "set_size (clientWidth video) (clientHeight video) canvas"
  let ?sx = "clientWidth video / videoWidth video"
  let ?sy = "clientHeight video / videoHeight video"
  have "canvasRef (step J (InferenceResolves (length (inflight s)) preds)
                  (snd (detectFaces caller s))) = Some (draw_predictions ?sx ?sy preds ?c)"
    by (simp add: detectFaces_ready [OF assms] canvas_resume detectFaces_resolved_def)
  moreover have "rectangles (ops (draw_predictions ?sx ?sy preds ?c)) =
      rectangles (ops canvas)
         @ map (\<lambda>face. StrokeRect (fst (topLeft face) * ?sx) (snd (topLeft face) * ?sy)
                  ((fst (bottomRight face) - fst (topLeft face)) * ?sx)
                  ((snd (bottomRight face) - snd (topLeft face)) * ?sy)) preds"
    by (simp add: rectangles_draw_predictions set_size_def)
  ultimately show ?thesis by simp
qed

theorem overlay_rectangle_scaled_witness:
  "\<exists>canvas'.
     canvasRef (step (\<lambda>ps. []) (InferenceResolves 0 [example_face])
        (snd (detectFaces None (run (\<lambda>ps. []) ready_events (mounted True))))) = Some canvas'
     \<and> rectangles (ops canvas') = [StrokeRect 50 50 50 50]"
proof -
  let ?s = "run (\<lambda>ps. []) ready_events (mounted True)"
  let ?v = "\<lparr>srcObject = Some [0], onloadedmetadata = True, paused = True,
     readyState = 4, clientWidth = 320, clientHeight = 240, videoWidth = 640,
     videoHeight = 480\<rparr>"
  have s: "videoRef ?s = Some ?v" "canvasRef ?s = Some (createElement_canvas True)"
    "model ?s = Some BlazeFaceModel" "inflight ?s = []"
    by (simp_all add: ready_events_def run_simps)
  have c: "has2d (createElement_canvas True)" "ops (createElement_canvas True) = []"
    by (simp_all add: createElement_canvas_def)
  have r: "readyState ?v = HAVE_ENOUGH_DATA"
    by (simp add: HAVE_ENOUGH_DATA_def)
  from overlay_rectangle_scaled [OF s(1) s(2) c(1) s(3) r, of "\<lambda>ps. []" "[example_face]" None]
  show ?thesis
    by (simp add: s(4) c(2) rectangles_Nil example_face_def)
qed

section \<open>The crop region\<close>

lemma unsigned_long_in_range:
  assumes "0 \<le> x" and "x < 2147483648"
  shows "unsigned_long d x = nat \<lfloor>x\<rfloor>"
proof -
  have "0 \<le> \<lfloor>x\<rfloor>" "\<lfloor>x\<rfloor> < 2147483648"
    using assms by (simp_all add: floor_less_iff)
  then show ?thesis
    using assms(1) by (simp add: unsigned_long_def Let_def)
qed

lemma unsigned_long_whole: "n < 2147483648 \<Longrightarrow> unsigned_long d (real n) = n"
  by (simp add: unsigned_long_in_range)

lemma unsigned_long_truncates:
  assumes "0 \<le> x" and "x < 2147483648"
  shows "real (unsigned_long d x) \<le> x \<and> x < real (unsigned_long d x) + 1"
proof -
  have "0 \<le> \<lfloor>x\<rfloor>" using assms(1) by simp
  then have "real (nat \<lfloor>x\<rfloor>) = of_int \<lfloor>x\<rfloor>" by simp
  then show ?thesis
    unfolding unsigned_long_in_range [OF assms] by linarith
qed

lemma unsigned_long_negative:
  assumes "x \<le> - 1" and "- 2147483648 \<le> x"
  shows "unsigned_long d x = d"
proof -
  have c: "\<lceil>x\<rceil> \<le> - 1" "- 2147483648 \<le> \<lceil>x\<rceil>"
    using assms by (simp_all add: ceiling_le_iff le_ceiling_iff)
  then have r: "0 \<le> \<lceil>x\<rceil> + 4294967296" "\<lceil>x\<rceil> + 4294967296 < 4294967296"
    by linarith+
  have m: "\<lceil>x\<rceil> mod 4294967296 = \<lceil>x\<rceil> + 4294967296"
    by (rule int_mod_pos_eq [where q = "- 1", OF _ r]) simp
  have big: "\<not> \<lceil>x\<rceil> + 4294967296 \<le> 2147483647"
    using c(2) by linarith
  have neg: "\<not> 0 \<le> x"
    using assms(1) by linarith
  have "unsigned_long d x =
      (if \<lceil>x\<rceil> mod 4294967296 \<le> 2147483647 then nat (\<lceil>x\<rceil> mod 4294967296) else d)"
    using neg by (simp add: unsigned_long_def Let_def)
  also have "\<dots> = d"
    unfolding m using big by (simp only: if_False)
  finally show ?thesis .
qed

text \<open>
  Claim C8, amended. Whenever the offscreen canvas yields a 2D context, for every face
  with top-left \<open>(x, y)\<close>, width \<open>w\<close> and height \<open>h\<close> and for every enlargement
  factor \<open>s\<close> and vertical offset \<open>v\<close>, \<open>cropFace\<close> assigns \<open>s * w\<close> and
  \<open>s * h\<close> to the canvas's width and height and draws into it, at the origin and in
  the size \<open>s * w\<close> by \<open>s * h\<close>, the source region of that size whose left edge is
  \<open>x - (s * w - w) / 2\<close> (the horizontal midpoint of the box is kept) and whose top
  edge is \<open>y * v - (s * h - h) / 2\<close> (the offset multiplies the y coordinate only);
  nothing bounds the region. The canvas is an integer raster: it is \<open>s * w\<close> by
  \<open>s * h\<close> when these are whole numbers below \<open>2^31\<close>, a fractional size from 0
  to \<open>2^31\<close> is truncated, and a size from \<open>-2^31\<close> to \<open>-1\<close> leaves the default
  (300 wide, 150 high). Without a context the canvas is returned as it was created and
  nothing is drawn.
\<close>

theorem cropFace_region:
  "(has2d c \<longrightarrow>
      (let x = fst (topLeft face); y = snd (topLeft face);
           w = fst (bottomRight face) - fst (topLeft face);
           h = snd (bottomRight face) - snd (topLeft face);
           sx = x - (s * w - w) / 2;
           sy = y * v - (s * h - h) / 2
       in cropFace s v c face =
            c\<lparr>width := unsigned_long 300 (s * w), height := unsigned_long 150 (s * h),
              ops := ops c @ [DrawImage sx sy (s * w) (s * h) 0 0 (s * w) (s * h)]\<rparr>
          \<and> sx + s * w / 2 = x + w / 2
          \<and> (\<forall>n. s * w = real n \<and> n < 2147483648 \<longrightarrow> width (cropFace s v c face) = n)
          \<and> (\<forall>n. s * h = real n \<and> n < 2147483648 \<longrightarrow> height (cropFace s v c face) = n)
          \<and> (0 \<le> s * w \<and> s * w < 2147483648 \<longrightarrow>
                real (width (cropFace s v c face)) \<le> s * w
                \<and> s * w < real (width (cropFace s v c face)) + 1)
          \<and> (0 \<le> s * h \<and> s * h < 2147483648 \<longrightarrow>
                real (height (cropFace s v c face)) \<le> s * h
                \<and> s * h < real (height (cropFace s v c face)) + 1)
          \<and> (- 2147483648 \<le> s * w \<and> s * w \<le> - 1 \<longrightarrow>
                width (cropFace s v c face) = 300)
          \<and> (- 2147483648 \<le> s * h \<and> s * h \<le> - 1 \<longrightarrow>
                height (cropFace s v c face) = 150)))
   \<and> (\<not> has2d c \<longrightarrow> cropFace s v c face = c)"
proof -
  define w where "w = fst (bottomRight face) - fst (topLeft face)"
  define h where "h = snd (bottomRight face) - snd (topLeft face)"
  have eq: "has2d c \<Longrightarrow> cropFace s v c face =
      c\<lparr>width := unsigned_long 300 (s * w), height := unsigned_long 150 (s * h),
        ops := ops c @ [DrawImage (fst (topLeft face) - (s * w - w) / 2)
          (snd (topLeft face) * v - (s * h - h) / 2) (s * w) (s * h) 0 0 (s * w) (s * h)]\<rparr>"
    by (simp add: cropFace_def set_size_def Let_def split_beta mult.commute w_def h_def)
  have wd: "has2d c \<Longrightarrow> width (cropFace s v c face) = unsigned_long 300 (s * w)"
    and ht: "has2d c \<Longrightarrow> height (cropFace s v c face) = unsigned_long 150 (s * h)"
    by (simp_all add: eq)
  have mid: "fst (topLeft face) - (s * w - w) / 2 + s * w / 2 = fst (topLeft face) + w / 2"
    by (simp add: field_simps)
  have none: "\<not> has2d c \<Longrightarrow> cropFace s v c face = c"
    by (simp add: cropFace_def)
  show ?thesis
    unfolding Let_def w_def [symmetric] h_def [symmetric]
    using eq mid none unsigned_long_whole [of _ 300] unsigned_long_whole [of _ 150]
      unsigned_long_truncates [of "s * w" 300] unsigned_long_truncates [of "s * h" 150]
      unsigned_long_negative [of "s * w" 300] unsigned_long_negative [of "s * h" 150]
    by (auto simp: wd ht)
qed

theorem cropFace_region_witness:
  "cropFace scaleFactor yScalerPos (createElement_canvas True) example_face =
     \<lparr>width = 200, height = 200, has2d = True,
      ops = [DrawImage 50 35 200 200 0 0 200 200]\<rparr>
   \<and> width (cropFace scaleFactor yScalerPos (createElement_canvas True) fractional_face) = 200
   \<and> height (cropFace scaleFactor yScalerPos (createElement_canvas True) fractional_face) = 150
   \<and> cropFace scaleFactor yScalerPos (createElement_canvas False) example_face =
     createElement_canvas False"
proof -
  have u: "unsigned_long 300 200 = 200" "unsigned_long 150 200 = 200"
    using unsigned_long_whole [of 200] by simp_all
  have f: "scaleFactor * (fst (bottomRight fractional_face) - fst (topLeft fractional_face))
      = 401 / 2"
    "scaleFactor * (snd (bottomRight fractional_face) - snd (topLeft fractional_face))
      = - 20"
    by (simp_all add: fractional_face_def scaleFactor_def)
  from cropFace_region [of "createElement_canvas True" example_face scaleFactor yScalerPos]
  have 1: "cropFace scaleFactor yScalerPos (createElement_canvas True) example_face =
     \<lparr>width = 200, height = 200, has2d = True,
      ops = [DrawImage 50 35 200 200 0 0 200 200]\<rparr>"
    by (simp add: createElement_canvas_def example_face_def scaleFactor_def yScalerPos_def
        Let_def u)
  let ?X = "cropFace scaleFactor yScalerPos (createElement_canvas True) fractional_face"
  have h: "has2d (createElement_canvas True)"
    by (simp add: createElement_canvas_def)
  from cropFace_region [of "createElement_canvas True" fractional_face scaleFactor yScalerPos] h
  have "0 \<le> (401 / 2 :: real) \<and> (401 / 2 :: real) < 2147483648 \<longrightarrow>
      real (width ?X) \<le> 401 / 2 \<and> 401 / 2 < real (width ?X) + 1"
    and "- 2147483648 \<le> (- 20 :: real) \<and> (- 20 :: real) \<le> - 1 \<longrightarrow> height ?X = 150"
    unfolding Let_def f by blast+
  then have 2: "real (width ?X) \<le> 401 / 2" "401 / 2 < real (width ?X) + 1"
    "height ?X = 150"
    by simp_all
  from 2(1,2) have 3: "width ?X = 200"
    by linarith
  from cropFace_region [of "createElement_canvas False" example_face scaleFactor yScalerPos]
  have 4: "cropFace scaleFactor yScalerPos (createElement_canvas False) example_face =
     createElement_canvas False"
    by (simp add: createElement_canvas_def)
  from 1 2(3) 3 4 show ?thesis by simp
qed

text \<open>Claim C8 as stated fails in two ways. With a context, a face 100.25 wide is
  enlarged to 200.5 and the raster is 200 wide; a box whose bottom is above its top has
  the negative height -20 after enlargement and the raster keeps the default height 150.
  Without a context the canvas of a face 100 wide keeps its default width 300 and nothing
  is drawn.\<close>

theorem cropFace_raster_counterexample:
  "scaleFactor * (fst (bottomRight fractional_face) - fst (topLeft fractional_face)) = 401 / 2
   \<and> width (cropFace scaleFactor yScalerPos (createElement_canvas True) fractional_face) = 200
   \<and> scaleFactor * (snd (bottomRight fractional_face) - snd (topLeft fractional_face)) = - 20
   \<and> height (cropFace scaleFactor yScalerPos (createElement_canvas True) fractional_face) = 150
   \<and> scaleFactor * (fst (bottomRight example_face) - fst (topLeft example_face)) = 200
   \<and> width (cropFace scaleFactor yScalerPos (createElement_canvas False) example_face) = 300
   \<and> ops (cropFace scaleFactor yScalerPos (createElement_canvas False) example_face) = []"
  by (simp add: cropFace_def set_size_def unsigned_long_def createElement_canvas_def
      example_face_def fractional_face_def scaleFactor_def Let_def)

section \<open>The overlay of the cropped-face variant\<close>

lemma draw_landmark_fun:
  "draw_landmark sx sy = (\<lambda>l. [BeginPath, Arc (fst l * sx) (snd l * sy) 3 0 2, Fill])"
  by (rule ext) (simp add: draw_landmark_def)

text \<open>
  Claim C9, amended. In the variant's overlay the rectangle of a detection is stroked
  with its top at \<open>topLeft.y * scaleY * 0.85\<close> and its height
  \<open>(bottomRight.y - topLeft.y) * scaleY\<close>, while every landmark circle is drawn at
  \<open>(lx * scaleX, ly * scaleY)\<close> without the multiplier. The top of the box lies above
  the place \<open>topLeft.y * scaleY\<close> the landmarks' transform gives exactly when
  \<open>topLeft.y * scaleY\<close> is positive, and below it exactly when that product is
  negative.
\<close>

theorem crop_overlay_transforms:
  "draw_face_crop yScalerPos sx sy face =
     StrokeRect (fst (topLeft face) * sx) (snd (topLeft face) * sy * (85 / 100))
       ((fst (bottomRight face) - fst (topLeft face)) * sx)
       ((snd (bottomRight face) - snd (topLeft face)) * sy)
     # concat (map (\<lambda>l. [BeginPath, Arc (fst l * sx) (snd l * sy) 3 0 2, Fill])
         (landmarks face))
   \<and> (\<exists>t. rect_top (hd (draw_face_crop yScalerPos sx sy face)) = Some t
        \<and> (t < snd (topLeft face) * sy) = (0 < snd (topLeft face) * sy)
        \<and> (t > snd (topLeft face) * sy) = (snd (topLeft face) * sy < 0))"
proof -
  have 1: "draw_face_crop yScalerPos sx sy face =
     StrokeRect (fst (topLeft face) * sx) (snd (topLeft face) * sy * (85 / 100))
       ((fst (bottomRight face) - fst (topLeft face)) * sx)
       ((snd (bottomRight face) - snd (topLeft face)) * sy)
     # concat (map (\<lambda>l. [BeginPath, Arc (fst l * sx) (snd l * sy) 3 0 2, Fill])
         (landmarks face))"
    by (simp add: draw_face_crop_def yScalerPos_def split_beta draw_landmark_fun)
  have 2: "rect_top (hd (draw_face_crop yScalerPos sx sy face)) =
      Some (snd (topLeft face) * sy * (85 / 100))"
    unfolding 1 by simp
  have 3: "(a * (85 / 100) < a) = (0 < a)" "(a * (85 / 100) > a) = (a < 0)" for a :: real
    by arith+
  from 1 2 3 [of "snd (topLeft face) * sy"] show ?thesis
    by blast
qed

theorem crop_overlay_transforms_witness:
  "draw_face_crop yScalerPos 1 1 face_above_frame =
     [StrokeRect 10 (- 17) 40 50, BeginPath, Arc 30 5 3 0 2, Fill]"
  using crop_overlay_transforms [of 1 1 face_above_frame]
  by (simp add: face_above_frame_def)

text \<open>Claim C9 as stated fails for a box that starts above the frame: with
  \<open>topLeft.y = -20\<close> and \<open>scaleY = 1\<close> the top is drawn at \<open>-17\<close>, below
  \<open>-20\<close>.\<close>

theorem crop_box_below_counterexample:
  "snd (topLeft face_above_frame) \<noteq> 0
   \<and> rect_top (hd (draw_face_crop yScalerPos 1 1 face_above_frame)) = Some (- 17)
   \<and> \<not> (- 17 < snd (topLeft face_above_frame) * (1::real))"
  by (simp add: draw_face_crop_def yScalerPos_def face_above_frame_def)

section \<open>The results panel\<close>

lemma collect_Inl: "(\<exists>e. collect xs = Inl e) = (\<exists>x \<in> set xs. isl x)"
proof (induction xs)
  case Nil
  then show ?case by simp
next
  case (Cons x xs)
  then show ?case
    by (cases x) (auto split: sum.splits)
qed

lemma js_error_only: "(e :: js_error) = TypeError"
  by (cases e) simp

lemma collect_TypeError: "(collect xs = Inl TypeError) = (\<exists>x \<in> set xs. isl x)"
  using collect_Inl [of xs] js_error_only by metis

lemma landmark_line_isl: "isl (landmark_line toFixed face lk) = (length (landmarks face) \<le> snd lk)"
  by (auto simp: landmark_line_def landmark_at_def)

lemma face_item_fails:
  "(face_item toFixed (face, index) = Inl TypeError) = (length (landmarks face) < 6)"
proof -
  let ?ls = "map (landmark_line toFixed face)
             [(''Right eye'', 0), (''Left eye'', 1), (''Nose'', 2), (''Mouth'', 3),
              (''Right ear'', 4), (''Left ear'', 5)]"
  have "(face_item toFixed (face, index) = Inl TypeError) = (collect ?ls = Inl TypeError)"
    unfolding face_item_def Let_def fst_conv snd_conv
    by (cases "collect ?ls") (simp_all add: js_error_only)
  also have "\<dots> = (\<exists>x \<in> set ?ls. isl x)"
    by (rule collect_TypeError)
  also have "\<dots> = (length (landmarks face) < 6)"
    by (auto simp: landmark_line_isl)
  finally show ?thesis .
qed

text \<open>
  Claim C10. The results panel reads the landmarks 0 to 5 of every stored detection
  whatever their number: reading landmark \<open>k\<close> throws exactly when the detection has
  at most \<open>k\<close> landmarks, an item renders without error exactly when its detection has
  at least 6, and the panel throws exactly when it is shown (streaming, with a model) and
  some stored detection has fewer than 6 landmarks.
\<close>

theorem results_panel_needs_six_landmarks:
  "(results_panel toFixed s = Inl TypeError) =
     (isStreaming s \<and> model s \<noteq> None
      \<and> (\<exists>face \<in> set (predictions s). length (landmarks face) < 6))
   \<and> (landmark_at face k = Inl TypeError) = (length (landmarks face) \<le> k)
   \<and> (face_item toFixed (face, index) = Inl TypeError) = (length (landmarks face) < 6)"
proof -
  have "(collect (map (face_item toFixed) (zip ps [0 ..< length ps])) = Inl TypeError)
      = (\<exists>face \<in> set ps. length (landmarks face) < 6)" for ps
  proof -
    have "(collect (map (face_item toFixed) (zip ps [0 ..< length ps])) = Inl TypeError)
        = (\<exists>fi \<in> set (zip ps [0 ..< length ps]). isl (face_item toFixed fi))"
      by (simp add: collect_TypeError)
    also have "\<dots> = (\<exists>fi \<in> set (zip ps [0 ..< length ps]). length (landmarks (fst fi)) < 6)"
      using face_item_fails [of toFixed] js_error_only
      by (metis isl_def prod.collapse sum.disc(1))
    also have "\<dots> = (\<exists>face \<in> fst ` set (zip ps [0 ..< length ps]). length (landmarks face) < 6)"
      by auto
    also have "fst ` set (zip ps [0 ..< length ps]) = set ps"
      by (metis length_upt map_fst_zip minus_nat.diff_0 set_map)
    finally show ?thesis .
  qed
  then show ?thesis
    by (auto simp: results_panel_def face_item_fails landmark_at_def)
qed

theorem results_panel_needs_six_landmarks_witness:
  "results_panel (\<lambda>d x. [])
     (run (\<lambda>ps. []) (streaming_events @ [InferenceResolves 0 [five_landmarks]])
        (mounted True)) = Inl TypeError
   \<and> landmark_at five_landmarks 4 = Inr (105, 140)
   \<and> landmark_at five_landmarks 5 = Inl TypeError"
proof -
  let ?s = "run (\<lambda>ps. []) (streaming_events @ [InferenceResolves 0 [five_landmarks]])
        (mounted True)"
  have s: "isStreaming ?s" "model ?s = Some BlazeFaceModel" "predictions ?s = [five_landmarks]"
    by (simp_all add: streaming_events_def ready_events_def run_simps)
  have l: "length (landmarks five_landmarks) = 5"
    by (simp add: five_landmarks_def)
  from results_panel_needs_six_landmarks [of "\<lambda>d x. []" ?s five_landmarks 5 0]
  have "results_panel (\<lambda>d x. []) ?s = Inl TypeError"
    "landmark_at five_landmarks 5 = Inl TypeError"
    by (simp_all add: s l)
  moreover have "landmark_at five_landmarks 4 = Inr (105, 140)"
    by (simp add: landmark_at_def five_landmarks_def)
  ultimately show ?thesis by simp
qed

section \<open>Stopping the camera\<close>

text \<open>
  Claim C4, amended. In every state in which the video element holds a stream, after
  \<open>stopCamera\<close> has returned all tracks of that stream are stopped, the stream is
  detached from the video element, the streaming flag is false and the stored
  predictions, the cropped-face list (in the variant) and the debug text are empty. In
  every other state \<open>stopCamera\<close> changes nothing.
\<close>

theorem stopCamera_guarded:
  "(videoRef s = Some video \<and> srcObject video = Some tracks \<longrightarrow>
      liveTracks (stopCamera s) \<inter> set tracks = {}
      \<and> videoRef (stopCamera s) = Some (video\<lparr>srcObject := None\<rparr>)
      \<and> \<not> isStreaming (stopCamera s)
      \<and> predictions (stopCamera s) = []
      \<and> debugInfo (stopCamera s) = [])
   \<and> (videoRef s = None \<or> (\<exists>v. videoRef s = Some v \<and> srcObject v = None) \<longrightarrow>
        stopCamera s = s)
   \<and> (videoRef c = Some video \<and> srcObject video = Some tracks \<longrightarrow>
      liveTracks (stopCamera_crop c) \<inter> set tracks = {}
      \<and> videoRef (stopCamera_crop c) = Some (video\<lparr>srcObject := None\<rparr>)
      \<and> \<not> isStreaming (stopCamera_crop c)
      \<and> predictions (stopCamera_crop c) = []
      \<and> croppedFaces (stopCamera_crop c) = []
      \<and> debugInfo (stopCamera_crop c) = [])
   \<and> (videoRef c = None \<or> (\<exists>v. videoRef c = Some v \<and> srcObject v = None) \<longrightarrow>
        stopCamera_crop c = c)"
  by (auto simp: stopCamera_def stopCamera_crop_def)

theorem stopCamera_guarded_witness:
  "predictions (stopCamera (run (\<lambda>ps. [])
       (streaming_events @ [InferenceResolves 0 [example_face]]) (mounted True))) = []
   \<and> liveTracks (stopCamera (run (\<lambda>ps. [])
       (streaming_events @ [InferenceResolves 0 [example_face]]) (mounted True))) = {}
   \<and> stopCamera (mounted True) = mounted True
   \<and> croppedFaces (stopCamera_crop (run_crop example_platform
       (crop_streaming_events @ [FacesResolve 0 [example_face], LandmarksResolve 0 [Face []]])
       (mounted_crop True True))) = []
   \<and> stopCamera_crop (mounted_crop True True) = mounted_crop True True"
proof -
  let ?s = "run (\<lambda>ps. []) (streaming_events @ [InferenceResolves 0 [example_face]])
       (mounted True)"
  let ?c = "run_crop example_platform
       (crop_streaming_events @ [FacesResolve 0 [example_face], LandmarksResolve 0 [Face []]])
       (mounted_crop True True)"
  let ?v = "\<lparr>srcObject = Some [0], onloadedmetadata = True, paused = False,
     readyState = 4, clientWidth = 320, clientHeight = 240, videoWidth = 640,
     videoHeight = 480\<rparr>"
  have s: "videoRef ?s = Some ?v" "liveTracks ?s = {0}"
    by (simp_all add: streaming_events_def ready_events_def run_simps)
  have c: "videoRef ?c = Some ?v"
    by (simp add: crop_streaming_events_def run_crop_simps)
  have m: "\<exists>v. videoRef (mounted True) = Some v \<and> srcObject v = None"
    "\<exists>v. videoRef (mounted_crop True True) = Some v \<and> srcObject v = None"
    by (simp_all add: mounted_def mounted_crop_def)
  from stopCamera_guarded [of ?s ?v "[0]" ?c] s c
  have 1: "predictions (stopCamera ?s) = []" "liveTracks (stopCamera ?s) \<inter> {0} = {}"
    "croppedFaces (stopCamera_crop ?c) = []"
    by simp_all
  have "liveTracks (stopCamera ?s) \<subseteq> {0}"
    using s by (simp add: stopCamera_def)
  with 1(2) have 2: "liveTracks (stopCamera ?s) = {}" by blast
  from stopCamera_guarded [of "mounted True" ?v "[0]" "mounted_crop True True"] m
  have 3: "stopCamera (mounted True) = mounted True"
    "stopCamera_crop (mounted_crop True True) = mounted_crop True True"
    by blast+
  from 1 2 3 show ?thesis by simp
qed

text \<open>Claim C4 as stated fails in states without a stream. In the variant, once the
  models have loaded the debug text is \<open>Models loaded successfully\<close>, and
  \<open>stopCamera\<close> leaves it. In camera.tsx, when Stop Camera was clicked while an
  inference was pending and the inference has resolved since, a further \<open>stopCamera\<close>
  leaves the stored predictions and the debug text as they are.\<close>

theorem stopCamera_without_stream_counterexample:
  "debugInfo (stopCamera_crop (run_crop example_platform
       [BlazefaceLoaded BlazeFaceModel, LandmarkLoaded FaceLandmarksDetector]
       (mounted_crop True True))) = ''Models loaded successfully''
   \<and> predictions (stopCamera (run (\<lambda>ps. []) stop_in_flight (mounted True))) = [example_face]
   \<and> debugInfo (stopCamera (run (\<lambda>ps. []) stop_in_flight (mounted True)))
       = ''Frame: 1, Raw predictions: ''"
  by (simp add: stop_in_flight_def streaming_events_def ready_events_def run_simps
      run_crop_simps showNat.simps)

section \<open>Model loading\<close>

lemma run_append: "run J (xs @ ys) s = run J ys (run J xs s)"
  by (simp add: run_def)

lemma run_Cons: "run J (x # xs) s = run J xs (step J x s)"
  by (simp add: run_def)

lemma run_Nil: "run J [] s = s"
  by (simp add: run_def)

lemma run_snoc: "run J (xs @ [x]) s = step J x (run J xs s)"
  by (simp add: run_def)

text \<open>Without a model nothing is scheduled and nothing is inferred.\<close>

lemma next_effect_unloaded: "unloaded s \<Longrightarrow> unloaded (next_effect s)"
  by (simp add: unloaded_def no_detection_def next_effect_def effect_cleanup_def Let_def
      split: option.splits)

lemma detection_effect_unloaded: "unloaded s \<Longrightarrow> unloaded (detection_effect s)"
  using next_effect_unloaded [of s]
  by (simp add: detection_effect_def Let_def unloaded_def)

lemma commit_unloaded: "unloaded s \<Longrightarrow> unloaded (commit b s)"
  by (simp add: commit_def detection_effect_unloaded)

lemma step_unloaded:
  assumes "unloaded s" and "\<not> loadPending s \<or> (\<forall>m. ev \<noteq> ModelLoaded m)"
  shows "unloaded (step J ev s) \<and> (\<not> loadPending s \<longrightarrow> \<not> loadPending (step J ev s))"
proof (cases ev)
  case (ModelLoaded m)
  with assms show ?thesis by simp
next
  case (ModelLoadFailed err)
  with assms show ?thesis
    by (simp add: unloaded_def no_detection_def loadModel_failed_def)
next
  case StartClick
  with assms show ?thesis by (simp add: unloaded_def no_detection_def)
next
  case (CameraGranted stream)
  with assms show ?thesis
    by (simp add: unloaded_def no_detection_def startCamera_granted_def split: option.splits)
next
  case CameraDenied
  with assms show ?thesis by (simp add: unloaded_def no_detection_def startCamera_denied_def)
next
  case LoadedMetadata
  have "unloaded (commit s (loadedmetadata v s))" for v
    using assms(1) by (intro commit_unloaded) (simp add: unloaded_def no_detection_def loadedmetadata_def)
  moreover have "loadPending (commit s (loadedmetadata v s)) = loadPending s" for v
    by (simp add: commit_def detection_effect_def next_effect_def effect_cleanup_def Let_def
        runDetection_def detectFaces_def schedule_def loadedmetadata_def split_beta
        split: option.splits)
  ultimately show ?thesis using assms LoadedMetadata
    by (simp split: option.splits)
next
  case StopClick
  have "unloaded (commit s (stopCamera s))"
    using assms(1) by (intro commit_unloaded) (simp add: unloaded_def no_detection_def stopCamera_def split: option.splits)
  moreover have "loadPending (commit s (stopCamera s)) = loadPending s"
    by (simp add: commit_def detection_effect_def next_effect_def effect_cleanup_def Let_def
        runDetection_def detectFaces_def schedule_def stopCamera_def split_beta
        split: option.splits)
  ultimately show ?thesis using assms StopClick by simp
next
  case (TimerFires t)
  with assms show ?thesis by (simp add: unloaded_def no_detection_def)
next
  case FrameCallback
  with assms show ?thesis by (simp add: unloaded_def no_detection_def)
next
  case (InferenceResolves i preds)
  with assms show ?thesis by (simp add: unloaded_def no_detection_def)
next
  case (InferenceRejects i err)
  with assms show ?thesis by (simp add: unloaded_def no_detection_def)
next
  case (VideoChanges rs cw ch vw vh)
  with assms show ?thesis by (simp add: unloaded_def no_detection_def video_changes_def)
next
  case WindowResize
  with assms show ?thesis
    by (simp add: unloaded_def no_detection_def handleResize_def split: option.splits)
qed


lemma loadPending_commit: "loadPending (commit b s) = loadPending s"
  by (simp add: commit_def detection_effect_def next_effect_def effect_cleanup_def Let_def
      runDetection_def detectFaces_def schedule_def split_beta split: option.splits)

lemma loadPending_step:
  "loadPending (step J ev s) \<Longrightarrow> loadPending s \<and> (\<forall>m. ev \<noteq> ModelLoaded m)"
  by (cases ev)
     (auto simp: loadPending_commit loadModel_loaded_def loadModel_failed_def
        startCamera_granted_def startCamera_denied_def loadedmetadata_def stopCamera_def
        runDetection_def detectFaces_def schedule_def unqueue_def resume_def
        detectFaces_resolved_def detectFaces_rejected_def video_changes_def handleResize_def
        Let_def split_beta split: option.splits if_splits)

lemma unloaded_while_pending:
  "loadPending (run J es (mounted ctx)) \<Longrightarrow> unloaded (run J es (mounted ctx))"
proof (induction es rule: rev_induct)
  case Nil
  then show ?case
    by (simp add: run_Nil unloaded_def no_detection_def mounted_def)
next
  case (snoc ev es)
  from snoc.prems have p: "loadPending (step J ev (run J es (mounted ctx)))"
    by (simp add: run_snoc)
  from loadPending_step [OF p] snoc.IH
  have "unloaded (run J es (mounted ctx))" and "\<forall>m. ev \<noteq> ModelLoaded m"
    by simp_all
  then show ?case
    using step_unloaded [of "run J es (mounted ctx)" ev J] by (simp add: run_snoc)
qed

lemma unloaded_forever:
  "unloaded s \<Longrightarrow> \<not> loadPending s \<Longrightarrow>
     unloaded (run J es s) \<and> \<not> loadPending (run J es s)"
proof (induction es rule: rev_induct)
  case Nil
  then show ?case by (simp add: run_Nil)
next
  case (snoc ev es)
  then show ?case
    using step_unloaded [of "run J es s" ev J] by (simp add: run_snoc)
qed

text \<open>
  Claim C2. In every session of camera.tsx in which loading the model fails, when the
  load has completed the loading flag is false, the error is set to a message and the
  model is unset; and whatever happens afterwards the model stays unset, no call of
  \<open>detectFaces\<close> is pending or scheduled and the model's inference has never been
  invoked.
\<close>

theorem load_failure_is_terminal:
  assumes "loadPending (run J pre (mounted ctx))"
  shows "\<not> isLoading (step J (ModelLoadFailed err) (run J pre (mounted ctx)))
     \<and> error (step J (ModelLoadFailed err) (run J pre (mounted ctx)))
         = Some ''Failed to load the face detection model.''
     \<and> model (run J (pre @ ModelLoadFailed err # post) (mounted ctx)) = None
     \<and> inferences (run J (pre @ ModelLoadFailed err # post) (mounted ctx)) = 0
     \<and> inflight (run J (pre @ ModelLoadFailed err # post) (mounted ctx)) = []
     \<and> timers (run J (pre @ ModelLoadFailed err # post) (mounted ctx)) = []
     \<and> frameCallbacks (run J (pre @ ModelLoadFailed err # post) (mounted ctx)) = 0"
proof -
  let ?s = "run J pre (mounted ctx)"
  let ?f = "step J (ModelLoadFailed err) ?s"
  have u: "unloaded ?s" using assms by (rule unloaded_while_pending)
  have f: "unloaded ?f" "\<not> loadPending ?f"
    using u assms by (simp_all add: unloaded_def no_detection_def loadModel_failed_def)
  have "run J (pre @ ModelLoadFailed err # post) (mounted ctx) = run J post ?f"
    by (simp add: run_append run_Cons)
  moreover from unloaded_forever [OF f] have "unloaded (run J post ?f)" by simp
  ultimately show ?thesis
    using assms by (simp add: unloaded_def no_detection_def loadModel_failed_def)
qed

theorem load_failure_is_terminal_witness:
  "\<not> isLoading (step (\<lambda>ps. []) (ModelLoadFailed ''no backend'') (mounted True))
   \<and> error (step (\<lambda>ps. []) (ModelLoadFailed ''no backend'') (mounted True))
       = Some ''Failed to load the face detection model.''
   \<and> inferences (run (\<lambda>ps. [])
        ([] @ ModelLoadFailed ''no backend''
           # [StartClick, CameraGranted [0], VideoChanges 4 320 240 640 480,
              LoadedMetadata, TimerFires 1, FrameCallback]) (mounted True)) = 0"
proof -
  have "loadPending (run (\<lambda>ps. []) [] (mounted True))"
    by (simp add: run_Nil mounted_def)
  from load_failure_is_terminal [OF this, of "''no backend''"
      "[StartClick, CameraGranted [0], VideoChanges 4 320 240 640 480,
              LoadedMetadata, TimerFires 1, FrameCallback]"]
  show ?thesis by (simp add: run_Nil)
qed

section \<open>Replacement of the stored results\<close>

lemma run_crop_Cons: "run_crop P (x # xs) s = run_crop P xs (step_crop P x s)"
  by (simp add: run_crop_def)

lemma run_crop_Nil: "run_crop P [] s = s"
  by (simp add: run_crop_def)

lemma for_faces_Nil:
  "croppedFaces (for_faces P i sx sy preds [] acc c) = acc"
  "predictions (for_faces P i sx sy preds [] acc c) = predictions c"
  by (simp_all add: for_faces_def)

lemma for_faces_Cons:
  assumes "i < length (inflight_crop c)"
  shows "inflight_crop (for_faces P i sx sy preds (f # rest) acc c) ! i =
      AwaitLandmark sx sy
        (cropFace scaleFactor yScalerPos (createElement_canvas (offscreen2d c)) f)
        preds rest acc"
    and "length (inflight_crop (for_faces P i sx sy preds (f # rest) acc c)) =
      length (inflight_crop c)"
    and "offscreen2d (for_faces P i sx sy preds (f # rest) acc c) = offscreen2d c"
    and "predictions (for_faces P i sx sy preds (f # rest) acc c) = predictions c"
  using assms by (simp_all add: for_faces_def Let_def)

lemma landmarks_resolve:
  assumes "i < length (inflight_crop c)"
    and "inflight_crop c ! i = AwaitLandmark sx sy cc preds rest acc"
  shows "step_crop P (LandmarksResolve i l) c =
     for_faces P i sx sy preds rest
       (acc @ [\<lparr>face_image = toDataURL P cc, face_landmarks = l\<rparr>]) c"
  using assms by simp

lemma for_faces_loop:
  assumes "i < length (inflight_crop c)" and "length lms = length faces"
  shows "croppedFaces (run_crop P (map (LandmarksResolve i) lms)
            (for_faces P i sx sy preds faces acc c)) =
         acc @ map (\<lambda>(face, l).
               \<lparr>face_image = toDataURL P
                  (cropFace scaleFactor yScalerPos (createElement_canvas (offscreen2d c)) face),
                face_landmarks = l\<rparr>) (zip faces lms)
       \<and> predictions (run_crop P (map (LandmarksResolve i) lms)
            (for_faces P i sx sy preds faces acc c)) = predictions c"
  using assms
proof (induction faces arbitrary: lms acc c)
  case Nil
  then show ?case by (simp add: run_crop_Nil for_faces_Nil)
next
  case (Cons f rest)
  from Cons.prems(2) obtain l ls where lms: "lms = l # ls" and len: "length ls = length rest"
    by (cases lms) auto
  let ?c1 = "for_faces P i sx sy preds (f # rest) acc c"
  let ?cc = "cropFace scaleFactor yScalerPos (createElement_canvas (offscreen2d c)) f"
  note c1 = for_faces_Cons [OF Cons.prems(1), of P sx sy preds f rest acc]
  have i1: "i < length (inflight_crop ?c1)" using Cons.prems(1) c1(2) by simp
  have st: "step_crop P (LandmarksResolve i l) ?c1 =
      for_faces P i sx sy preds rest
        (acc @ [\<lparr>face_image = toDataURL P ?cc, face_landmarks = l\<rparr>]) ?c1"
    by (rule landmarks_resolve [OF i1 c1(1)])
  have r: "run_crop P (map (LandmarksResolve i) lms) ?c1 =
      run_crop P (map (LandmarksResolve i) ls)
        (for_faces P i sx sy preds rest
          (acc @ [\<lparr>face_image = toDataURL P ?cc, face_landmarks = l\<rparr>]) ?c1)"
    by (simp only: lms list.map run_crop_Cons st)
  from Cons.IH [OF i1 len, of "acc @ [\<lparr>face_image = toDataURL P ?cc, face_landmarks = l\<rparr>]"]
  show ?case
    unfolding r by (simp add: lms c1(3) c1(4))
qed

lemma faces_resolve:
  assumes "i < length (inflight_crop c)" and "inflight_crop c ! i = AwaitBlaze sx sy"
  shows "step_crop P (FacesResolve i preds) c =
     for_faces P i sx sy preds preds [] (faces_resolved preds c)"
  using assms by simp

lemma faces_resolved_fields:
  "inflight_crop (faces_resolved preds c) = inflight_crop c"
  "offscreen2d (faces_resolved preds c) = offscreen2d c"
  "predictions (faces_resolved preds c) = preds"
  by (simp_all add: faces_resolved_def)

lemma cycles_ok_eq:
  "inflight_crop c' = inflight_crop c \<Longrightarrow> offscreen2d c' = offscreen2d c \<Longrightarrow>
     cycles_ok P t c' = cycles_ok P t c"
  by (simp add: cycles_ok_def)

lemma detectFaces_crop_ok: "cycles_ok P t c \<Longrightarrow> cycles_ok P t (detectFaces_crop c)"
  by (auto simp: cycles_ok_def detectFaces_crop_def cycle_ok_def Let_def split_beta
      split: option.splits)

lemma schedule_crop_fields:
  "inflight_crop (schedule e c) = inflight_crop c" "offscreen2d (schedule e c) = offscreen2d c"
  "inflight_crop (next_effect c) = inflight_crop c" "offscreen2d (next_effect c) = offscreen2d c"
  "inflight_crop (unqueue u c) = inflight_crop c" "offscreen2d (unqueue u c) = offscreen2d c"
  by (simp_all add: schedule_def next_effect_def effect_cleanup_def unqueue_def Let_def
      split: option.splits)

lemma runDetection_crop_ok: "cycles_ok P t c \<Longrightarrow> cycles_ok P t (runDetection_crop e c)"
  using detectFaces_crop_ok [of P t c]
  by (simp add: runDetection_crop_def cycles_ok_def schedule_crop_fields)

lemma commit_crop_ok: "cycles_ok P t c \<Longrightarrow> cycles_ok P t (commit_crop b c)"
proof -
  assume a: "cycles_ok P t c"
  then have "cycles_ok P t (next_effect c)"
    by (simp add: cycles_ok_def schedule_crop_fields)
  then show ?thesis
    using a runDetection_crop_ok [of P t "next_effect c"]
    by (simp add: commit_crop_def detection_effect_crop_def Let_def)
qed

lemma remove_ok:
  "cycles_ok P t c \<Longrightarrow>
     cycles_ok P t (c\<lparr>inflight_crop := take i (inflight_crop c) @ drop (Suc i) (inflight_crop c)\<rparr>)"
  by (auto simp: cycles_ok_def dest: in_set_takeD in_set_dropD)

lemma for_faces_ok:
  assumes "cycles_ok P t c"
    and "faces = drop (length acc) preds"
    and "map face_image acc =
          map (\<lambda>face. toDataURL P
                 (cropFace scaleFactor yScalerPos (createElement_canvas t) face))
            (take (length acc) preds)"
  shows "cycles_ok P t (for_faces P i sx sy preds faces acc c)"
proof (cases faces)
  case Nil
  have "cycles_ok P t (for_faces P i sx sy preds [] acc c) =
      cycles_ok P t (c\<lparr>inflight_crop := take i (inflight_crop c) @ drop (Suc i) (inflight_crop c)\<rparr>)"
    by (rule cycles_ok_eq) (simp_all add: for_faces_def)
  with remove_ok [OF assms(1)] Nil show ?thesis by simp
next
  case (Cons f rest)
  with assms(2) have d: "drop (length acc) preds = f # rest" by simp
  then have n: "length acc < length preds"
    by (metis drop_all linorder_not_less list.distinct(1))
  from d n have f: "f = preds ! length acc" "rest = drop (Suc (length acc)) preds"
    by (metis Cons_nth_drop_Suc list.inject)+
  have t: "offscreen2d c = t" using assms(1) by (simp add: cycles_ok_def)
  have new: "cycle_ok P t (AwaitLandmark sx sy
      (cropFace scaleFactor yScalerPos (createElement_canvas (offscreen2d c)) f)
      preds rest acc)"
    using n f assms(3) t by (simp add: cycle_ok_def)
  have "set ((inflight_crop c)[i := x]) \<subseteq> insert x (set (inflight_crop c))" for x
    by (rule set_update_subset_insert)
  with assms(1) new show ?thesis
    unfolding Cons by (auto simp: cycles_ok_def for_faces_def Let_def)
qed

lemma step_crop_ok: "cycles_ok P t c \<Longrightarrow> cycles_ok P t (step_crop P ev c)"
proof (cases ev)
  case (BlazefaceLoaded m)
  assume a: "cycles_ok P t c"
  have "cycles_ok P t (loadModels_blazeface m c)"
    using a by (simp add: cycles_ok_def loadModels_blazeface_def)
  with a BlazefaceLoaded show ?thesis by (simp add: commit_crop_ok)
next
  case (LandmarkLoaded m)
  assume a: "cycles_ok P t c"
  have "cycles_ok P t (loadModels_landmark m (c\<lparr>loadPending := False\<rparr>))"
    using a by (simp add: cycles_ok_def loadModels_landmark_def)
  with a LandmarkLoaded show ?thesis by (simp add: commit_crop_ok)
next
  case (ModelsLoadFailed err)
  assume a: "cycles_ok P t c"
  with ModelsLoadFailed show ?thesis by (simp add: cycles_ok_def loadModels_failed_def)
next
  case StartClicked
  assume a: "cycles_ok P t c"
  with StartClicked show ?thesis by (simp add: cycles_ok_def)
next
  case (AccessGranted stream)
  assume a: "cycles_ok P t c"
  with AccessGranted show ?thesis
    by (simp add: cycles_ok_def startCamera_granted_def split: option.splits)
next
  case AccessDenied
  assume a: "cycles_ok P t c"
  with AccessDenied show ?thesis by (simp add: cycles_ok_def startCamera_denied_def)
next
  case MetadataLoaded
  assume a: "cycles_ok P t c"
  have "cycles_ok P t (loadedmetadata v c)" for v
    using a by (simp add: cycles_ok_def loadedmetadata_def)
  with a MetadataLoaded show ?thesis by (simp add: commit_crop_ok split: option.splits)
next
  case StopClicked
  assume a: "cycles_ok P t c"
  have "cycles_ok P t (stopCamera_crop c)"
    using a by (simp add: cycles_ok_def stopCamera_crop_def split: option.splits)
  with a StopClicked show ?thesis by (simp add: commit_crop_ok)
next
  case (TimerFired u)
  assume a: "cycles_ok P t c"
  have "cycles_ok P t (unqueue u c)"
    using a by (simp add: cycles_ok_def schedule_crop_fields)
  with a TimerFired show ?thesis by (simp add: runDetection_crop_ok split: option.splits)
next
  case FrameCalled
  assume a: "cycles_ok P t c"
  have "cycles_ok P t (c\<lparr>frameCallbacks := frameCallbacks c - 1\<rparr>)"
    using a by (simp add: cycles_ok_def)
  with a FrameCalled show ?thesis by (simp add: detectFaces_crop_ok)
next
  case (FacesResolve i preds)
  assume a: "cycles_ok P t c"
  have "cycles_ok P t (faces_resolved preds c)"
    using a by (simp add: cycles_ok_def faces_resolved_def)
  then have "cycles_ok P t (for_faces P i sx sy preds preds [] (faces_resolved preds c))"
    for sx sy
    by (rule for_faces_ok) simp_all
  with a FacesResolve show ?thesis by (simp split: crop_cycle.splits)
next
  case (LandmarksResolve i l)
  assume a: "cycles_ok P t c"
  have "cycles_ok P t (for_faces P i sx sy preds rest
      (acc @ [\<lparr>face_image = toDataURL P cc, face_landmarks = l\<rparr>]) c)"
    if "i < length (inflight_crop c)"
      and "inflight_crop c ! i = AwaitLandmark sx sy cc preds rest acc"
    for sx sy cc preds rest acc
  proof (rule for_faces_ok [OF a])
    from that a have ok: "cycle_ok P t (AwaitLandmark sx sy cc preds rest acc)"
      unfolding cycles_ok_def by (metis nth_mem)
    then show "rest = drop (length (acc @ [\<lparr>face_image = toDataURL P cc, face_landmarks = l\<rparr>])) preds"
      by (simp add: cycle_ok_def)
    from ok show "map face_image (acc @ [\<lparr>face_image = toDataURL P cc, face_landmarks = l\<rparr>]) =
        map (\<lambda>face. toDataURL P
               (cropFace scaleFactor yScalerPos (createElement_canvas t) face))
          (take (length (acc @ [\<lparr>face_image = toDataURL P cc, face_landmarks = l\<rparr>])) preds)"
      by (simp add: cycle_ok_def take_Suc_conv_app_nth)
  qed
  with a LandmarksResolve show ?thesis by (simp split: crop_cycle.splits)
next
  case (CycleRejects i err)
  assume a: "cycles_ok P t c"
  have "cycles_ok P t (cycle_rejected i err c) =
      cycles_ok P t (c\<lparr>inflight_crop := take i (inflight_crop c) @ drop (Suc i) (inflight_crop c)\<rparr>)"
    by (rule cycles_ok_eq) (simp_all add: cycle_rejected_def)
  with remove_ok [OF a] a CycleRejects show ?thesis by simp
next
  case (VideoChanged rs cw ch vw vh)
  assume a: "cycles_ok P t c"
  with VideoChanged show ?thesis by (simp add: cycles_ok_def video_changes_def)
next
  case (ClockTicks now)
  assume a: "cycles_ok P t c"
  with ClockTicks show ?thesis by (simp add: cycles_ok_def)
qed

lemma run_crop_snoc: "run_crop P (xs @ [x]) s = step_crop P x (run_crop P xs s)"
  by (simp add: run_crop_def)

lemma reachable_cycles_ok: "cycles_ok P t (run_crop P es (mounted_crop ctx t))"
proof (induction es rule: rev_induct)
  case Nil
  show ?case by (simp add: run_crop_Nil cycles_ok_def mounted_crop_def)
next
  case (snoc ev es)
  then show ?case using step_crop_ok by (simp add: run_crop_snoc)
qed

lemma last_landmark_resolves:
  assumes "cycles_ok P t c" and "k < length (inflight_crop c)"
    and "inflight_crop c ! k = AwaitLandmark sx sy cc qs [] acc"
  shows "croppedFaces (step_crop P (LandmarksResolve k l) c) =
      acc @ [\<lparr>face_image = toDataURL P cc, face_landmarks = l\<rparr>]"
    and "length (croppedFaces (step_crop P (LandmarksResolve k l) c)) = length qs"
    and "map face_image (croppedFaces (step_crop P (LandmarksResolve k l) c)) =
      map (\<lambda>face. toDataURL P
             (cropFace scaleFactor yScalerPos (createElement_canvas t) face)) qs"
proof -
  show 1: "croppedFaces (step_crop P (LandmarksResolve k l) c) =
      acc @ [\<lparr>face_image = toDataURL P cc, face_landmarks = l\<rparr>]"
    unfolding landmarks_resolve [OF assms(2,3)] by (rule for_faces_Nil)
  from assms have ok: "cycle_ok P t (AwaitLandmark sx sy cc qs [] acc)"
    unfolding cycles_ok_def by (metis nth_mem)
  then have n: "length acc < length qs" "drop (Suc (length acc)) qs = []"
    by (simp_all add: cycle_ok_def)
  then have len: "Suc (length acc) = length qs"
    by simp
  then show "length (croppedFaces (step_crop P (LandmarksResolve k l) c)) = length qs"
    unfolding 1 by simp
  have "take (Suc (length acc)) qs = qs"
    using len by simp
  then have "qs = take (length acc) qs @ [qs ! length acc]"
    using n(1) by (simp add: take_Suc_conv_app_nth)
  then have "map (\<lambda>face. toDataURL P
             (cropFace scaleFactor yScalerPos (createElement_canvas t) face)) qs =
      map (\<lambda>face. toDataURL P
             (cropFace scaleFactor yScalerPos (createElement_canvas t) face))
        (take (length acc) qs)
      @ [toDataURL P
           (cropFace scaleFactor yScalerPos (createElement_canvas t) (qs ! length acc))]"
    by (metis (no_types, lifting) list.simps(8,9) map_append)
  with ok show "map face_image (croppedFaces (step_crop P (LandmarksResolve k l) c)) =
      map (\<lambda>face. toDataURL P
             (cropFace scaleFactor yScalerPos (createElement_canvas t) face)) qs"
    unfolding 1 by (simp add: cycle_ok_def)
qed

text \<open>
  What a detection cycle writes, it writes wholesale. Whatever the state, when the
  inference of a pending cycle of camera.tsx resolves the stored predictions become
  exactly its output, and so do they in the variant when the face detector of a pending
  cycle resolves (with no detection the cropped-face list becomes empty in the same
  step). In every reachable state of the variant, when the landmark call for the last
  face of a cycle resolves, the cropped-face list becomes \<open>newCroppedFaces\<close> with the
  last entry added: exactly one entry per detection of that cycle, in order, each the
  snapshot of that face's crop. No write mentions what was stored before. When no other
  event falls between the events of a cycle, after the cycle the stored predictions are
  its output and the cropped-face list has one entry per detection, with the landmarks
  returned for it.
\<close>

theorem cycle_writes_wholesale:
  "(i < length (inflight s) \<longrightarrow>
      predictions (step J (InferenceResolves i preds) s) = preds)
   \<and> (j < length (inflight_crop c) \<and> inflight_crop c ! j = AwaitBlaze sx sy \<longrightarrow>
      predictions (step_crop P (FacesResolve j ps) c) = ps
      \<and> (ps = [] \<longrightarrow> croppedFaces (step_crop P (FacesResolve j ps) c) = []))
   \<and> (k < length (inflight_crop (run_crop P es (mounted_crop ctx t)))
        \<and> inflight_crop (run_crop P es (mounted_crop ctx t)) ! k
            = AwaitLandmark sx' sy' cc qs [] acc \<longrightarrow>
      croppedFaces (step_crop P (LandmarksResolve k l) (run_crop P es (mounted_crop ctx t)))
        = acc @ [\<lparr>face_image = toDataURL P cc, face_landmarks = l\<rparr>]
      \<and> length (croppedFaces
           (step_crop P (LandmarksResolve k l) (run_crop P es (mounted_crop ctx t))))
        = length qs
      \<and> map face_image (croppedFaces
           (step_crop P (LandmarksResolve k l) (run_crop P es (mounted_crop ctx t))))
        = map (\<lambda>face. toDataURL P
                 (cropFace scaleFactor yScalerPos (createElement_canvas t) face)) qs)
   \<and> (j < length (inflight_crop c) \<and> inflight_crop c ! j = AwaitBlaze sx sy
        \<and> length lms = length ps \<longrightarrow>
      predictions (run_crop P (FacesResolve j ps # map (LandmarksResolve j) lms) c) = ps
      \<and> croppedFaces (run_crop P (FacesResolve j ps # map (LandmarksResolve j) lms) c)
        = map (\<lambda>(face, l).
               \<lparr>face_image = toDataURL P
                  (cropFace scaleFactor yScalerPos (createElement_canvas (offscreen2d c)) face),
                face_landmarks = l\<rparr>) (zip ps lms))"
proof -
  have cam: "predictions (step J (InferenceResolves i preds) s) = preds"
    if "i < length (inflight s)"
    using that
    by (simp add: resume_def schedule_def detectFaces_resolved_def Let_def
        split: option.splits)
  have first: "predictions (step_crop P (FacesResolve j ps) c) = ps
      \<and> (ps = [] \<longrightarrow> croppedFaces (step_crop P (FacesResolve j ps) c) = [])"
    if a: "j < length (inflight_crop c)" "inflight_crop c ! j = AwaitBlaze sx sy"
  proof -
    have i1: "j < length (inflight_crop (faces_resolved ps c))"
      using a(1) by (simp add: faces_resolved_fields)
    show ?thesis
      unfolding faces_resolve [OF a]
      using for_faces_Cons(4) [OF i1, of P sx sy ps]
      by (cases ps) (simp_all add: for_faces_Nil faces_resolved_fields)
  qed
  have last: "croppedFaces (step_crop P (LandmarksResolve k l) (run_crop P es (mounted_crop ctx t)))
        = acc @ [\<lparr>face_image = toDataURL P cc, face_landmarks = l\<rparr>]
      \<and> length (croppedFaces
           (step_crop P (LandmarksResolve k l) (run_crop P es (mounted_crop ctx t))))
        = length qs
      \<and> map face_image (croppedFaces
           (step_crop P (LandmarksResolve k l) (run_crop P es (mounted_crop ctx t))))
        = map (\<lambda>face. toDataURL P
                 (cropFace scaleFactor yScalerPos (createElement_canvas t) face)) qs"
    if "k < length (inflight_crop (run_crop P es (mounted_crop ctx t)))"
      "inflight_crop (run_crop P es (mounted_crop ctx t)) ! k
            = AwaitLandmark sx' sy' cc qs [] acc"
    using last_landmark_resolves [OF reachable_cycles_ok that] by blast
  have whole: "predictions (run_crop P (FacesResolve j ps # map (LandmarksResolve j) lms) c)
        = ps
      \<and> croppedFaces (run_crop P (FacesResolve j ps # map (LandmarksResolve j) lms) c)
        = map (\<lambda>(face, l).
               \<lparr>face_image = toDataURL P
                  (cropFace scaleFactor yScalerPos (createElement_canvas (offscreen2d c)) face),
                face_landmarks = l\<rparr>) (zip ps lms)"
    if a: "j < length (inflight_crop c)" "inflight_crop c ! j = AwaitBlaze sx sy"
      "length lms = length ps"
  proof -
    have i1: "j < length (inflight_crop (faces_resolved ps c))"
      using a(1) by (simp add: faces_resolved_fields)
    have r: "run_crop P (FacesResolve j ps # map (LandmarksResolve j) lms) c =
        run_crop P (map (LandmarksResolve j) lms)
          (for_faces P j sx sy ps ps [] (faces_resolved ps c))"
      by (simp only: run_crop_Cons faces_resolve [OF a(1) a(2)])
    from for_faces_loop [OF i1 a(3), of P sx sy ps "[]"]
    show ?thesis
      unfolding r by (simp add: faces_resolved_fields)
  qed
  show ?thesis
    using cam first last whole by (auto simp del: step.simps step_crop.simps)
qed

theorem cycle_writes_wholesale_example:
  "predictions (step (\<lambda>ps. []) (InferenceResolves 0 [example_face])
      (run (\<lambda>ps. []) streaming_events (mounted True))) = [example_face]
   \<and> predictions (step_crop example_platform (FacesResolve 0 [example_face, face_above_frame])
        (run_crop example_platform crop_streaming_events (mounted_crop True True)))
      = [example_face, face_above_frame]
   \<and> croppedFaces (step_crop example_platform (LandmarksResolve 0 [Face []])
        (run_crop example_platform (crop_streaming_events @ [FacesResolve 0 [example_face]])
           (mounted_crop True True)))
      = [\<lparr>face_image = ''data:,'', face_landmarks = [Face []]\<rparr>]
   \<and> croppedFaces (run_crop example_platform
        (FacesResolve 0 [example_face, face_above_frame]
           # map (LandmarksResolve 0) [[Face []], []])
        (run_crop example_platform crop_streaming_events (mounted_crop True True))) =
      [\<lparr>face_image = ''data:,'', face_landmarks = [Face []]\<rparr>,
       \<lparr>face_image = ''data:,'', face_landmarks = []\<rparr>]"
proof -
  let ?s = "run (\<lambda>ps. []) streaming_events (mounted True)"
  let ?c = "run_crop example_platform crop_streaming_events (mounted_crop True True)"
  let ?d = "run_crop example_platform (crop_streaming_events @ [FacesResolve 0 [example_face]])
           (mounted_crop True True)"
  let ?cc = "cropFace scaleFactor yScalerPos (createElement_canvas True) example_face"
  have s: "0 < length (inflight ?s)"
    by (simp add: streaming_events_def ready_events_def run_simps)
  have c: "0 < length (inflight_crop ?c) \<and> inflight_crop ?c ! 0 = AwaitBlaze (1 / 2) (1 / 2)"
    by (simp add: crop_streaming_events_def run_crop_simps)
  have d: "0 < length (inflight_crop ?d)
      \<and> inflight_crop ?d ! 0 = AwaitLandmark (1 / 2) (1 / 2) ?cc [example_face] [] []"
    by (simp add: crop_streaming_events_def run_crop_simps)
  have n: "length [[Face []], [] :: Face list] = length [example_face, face_above_frame]"
    by simp
  have u: "toDataURL example_platform x = ''data:,''" for x
    by (simp add: example_platform_def)
  note t = cycle_writes_wholesale [where i = 0 and s = ?s and J = "\<lambda>ps. []"
      and preds = "[example_face]" and j = 0 and c = ?c and sx = "1 / 2" and sy = "1 / 2"
      and ps = "[example_face, face_above_frame]" and P = example_platform
      and k = 0 and es = "crop_streaming_events @ [FacesResolve 0 [example_face]]"
      and ctx = True and t = True and sx' = "1 / 2" and sy' = "1 / 2" and cc = ?cc
      and qs = "[example_face]" and acc = "[]" and l = "[Face []]"
      and lms = "[[Face []], []]"]
  from t s c d n
  have "predictions (step (\<lambda>ps. []) (InferenceResolves 0 [example_face]) ?s) = [example_face]"
    and "predictions (step_crop example_platform
          (FacesResolve 0 [example_face, face_above_frame]) ?c)
      = [example_face, face_above_frame]"
    and "croppedFaces (step_crop example_platform (LandmarksResolve 0 [Face []]) ?d)
      = [] @ [\<lparr>face_image = toDataURL example_platform ?cc, face_landmarks = [Face []]\<rparr>]"
    and "croppedFaces (run_crop example_platform
        (FacesResolve 0 [example_face, face_above_frame]
           # map (LandmarksResolve 0) [[Face []], []]) ?c) =
      map (\<lambda>(face, l).
               \<lparr>face_image = toDataURL example_platform
                  (cropFace scaleFactor yScalerPos (createElement_canvas (offscreen2d ?c)) face),
                face_landmarks = l\<rparr>) (zip [example_face, face_above_frame] [[Face []], []])"
    by blast+
  then show ?thesis
    by (simp add: u del: step.simps step_crop.simps)
qed

text \<open>
  Claim C7 fails on the variant when another event falls between the awaits of a cycle.
  With overlapping cycles: the first cycle stores its output, one face, while a second
  cycle, started by the timer meanwhile, is in flight; the second then resolves with no
  face and stores that; the first then completes without error and stores its one
  cropped face. After it the stored predictions are empty, not its output, beside one
  cropped face. With a stop: Stop Camera is clicked while the cycle waits for the
  landmark model; the cycle then completes and stores its cropped face over the cleared
  state.
\<close>

theorem cycle_overtaken:
  "predictions (run_crop example_platform
       (crop_streaming_events @ [TimerFired 1, FacesResolve 0 [example_face]])
       (mounted_crop True True)) = [example_face]
   \<and> length (inflight_crop (run_crop example_platform
       (crop_streaming_events @ [TimerFired 1, FacesResolve 0 [example_face]])
       (mounted_crop True True))) = 2
   \<and> predictions (run_crop example_platform overlapping_events (mounted_crop True True)) = []
   \<and> croppedFaces (run_crop example_platform overlapping_events (mounted_crop True True))
      = [\<lparr>face_image = ''data:,'', face_landmarks = [Face []]\<rparr>]
   \<and> inflight_crop (run_crop example_platform overlapping_events (mounted_crop True True)) = []
   \<and> error (run_crop example_platform overlapping_events (mounted_crop True True)) = None
   \<and> \<not> isStreaming (run_crop example_platform stopped_mid_cycle (mounted_crop True True))
   \<and> predictions (run_crop example_platform stopped_mid_cycle (mounted_crop True True)) = []
   \<and> croppedFaces (run_crop example_platform stopped_mid_cycle (mounted_crop True True))
      = [\<lparr>face_image = ''data:,'', face_landmarks = [Face []]\<rparr>]"
  by (simp add: overlapping_events_def stopped_mid_cycle_def crop_streaming_events_def
      run_crop_simps example_platform_def showNat.simps)

section \<open>Stopping while an inference is pending\<close>

text \<open>
  Claim C3 fails on camera.tsx when Stop Camera is clicked while \<open>detectFaces\<close> waits
  for its inference. Right after the click nothing is streaming, no timer is pending (the
  cleanup found \<open>timeoutId\<close> unset), the call is still suspended and the overlay is
  untouched. When the inference then resolves, its result is stored and drawn, and
  \<open>runDetection\<close> of the instance that was cleaned up (instance 2; the current one is
  3) sets a timer that no cleanup will clear. When that timer fires on the video that has
  no data any more, \<open>detectFaces\<close> queues a frame callback and the next timer is set:
  the loop goes on.
\<close>

theorem stop_while_inference_pending:
  "\<not> isStreaming (run (\<lambda>ps. []) (streaming_events @ [StopClick]) (mounted True))
   \<and> timers (run (\<lambda>ps. []) (streaming_events @ [StopClick]) (mounted True)) = []
   \<and> length (inflight (run (\<lambda>ps. []) (streaming_events @ [StopClick]) (mounted True))) = 1
   \<and> map_option ops (canvasRef (run (\<lambda>ps. []) (streaming_events @ [StopClick]) (mounted True)))
        = Some []
   \<and> \<not> isStreaming (run (\<lambda>ps. []) stop_in_flight (mounted True))
   \<and> predictions (run (\<lambda>ps. []) stop_in_flight (mounted True)) = [example_face]
   \<and> map_option (\<lambda>c. rectangles (ops c)) (canvasRef (run (\<lambda>ps. []) stop_in_flight (mounted True)))
        = Some [StrokeRect 50 50 50 50]
   \<and> timers (run (\<lambda>ps. []) stop_in_flight (mounted True)) = [\<lparr>tid = 1, owner = 2\<rparr>]
   \<and> effect (run (\<lambda>ps. []) stop_in_flight (mounted True)) = 3
   \<and> timers (run (\<lambda>ps. []) (stop_in_flight @ [VideoChanges 0 320 240 0 0, TimerFires 1])
        (mounted True)) = [\<lparr>tid = 2, owner = 2\<rparr>]
   \<and> frameCallbacks (run (\<lambda>ps. []) (stop_in_flight @ [VideoChanges 0 320 240 0 0, TimerFires 1])
        (mounted True)) = 1"
  by (simp add: stop_in_flight_def streaming_events_def ready_events_def run_simps
      showNat.simps example_face_def draw_predictions_def draw_face_def draw_landmark_def
      rectangles_Cons rectangles_Nil)

section \<open>Overlapping cycles\<close>

text \<open>
  Claim C6 fails. In the variant \<open>runDetection\<close> does not await \<open>detectFaces\<close>:
  once streaming has started a cycle waits for the face detector while the timer of the
  next run is already pending; when the timer fires two cycles are in flight. The same
  happens while the first cycle waits for the landmark model of a face (one landmark
  inference made, no cropped face stored yet). In camera.tsx a call of \<open>detectFaces\<close>
  made by \<open>requestAnimationFrame\<close> is awaited by nobody, and the timer starts another
  beside it.
\<close>

theorem detection_cycles_overlap:
  "inflight_crop (run_crop example_platform crop_streaming_events (mounted_crop True True))
      = [AwaitBlaze (1 / 2) (1 / 2)]
   \<and> timers (run_crop example_platform crop_streaming_events (mounted_crop True True))
      = [\<lparr>tid = 1, owner = 3\<rparr>]
   \<and> inflight_crop (run_crop example_platform (crop_streaming_events @ [TimerFired 1])
        (mounted_crop True True))
      = [AwaitBlaze (1 / 2) (1 / 2), AwaitBlaze (1 / 2) (1 / 2)]
   \<and> length (inflight_crop (run_crop example_platform
        (crop_streaming_events @ [FacesResolve 0 [example_face], TimerFired 1])
        (mounted_crop True True))) = 2
   \<and> landmarkInferences (run_crop example_platform
        (crop_streaming_events @ [FacesResolve 0 [example_face], TimerFired 1])
        (mounted_crop True True)) = 1
   \<and> croppedFaces (run_crop example_platform
        (crop_streaming_events @ [FacesResolve 0 [example_face], TimerFired 1])
        (mounted_crop True True)) = []
   \<and> map awaited_by (inflight (run (\<lambda>ps. []) not_ready_events (mounted True)))
      = [None, Some 2]"
  by (simp add: crop_streaming_events_def run_crop_simps not_ready_events_def run_simps
      example_platform_def example_face_def)

section \<open>Inference failures\<close>

lemma schedule_fields:
  "timers (schedule e s) = timers s @ [\<lparr>tid = nextTimer s, owner = e\<rparr>]"
  "nextTimer (schedule e s) = nextTimer s + 1"
  "effect (schedule e s) = effect s"
  "isStreaming (schedule e s) = isStreaming s"
  "inflight (schedule e s) = inflight s"
  "model (schedule e s) = model s"
  "error (schedule e s) = error s"
  "debugInfo (schedule e s) = debugInfo s"
  by (simp_all add: schedule_def)

lemma detectFaces_fields:
  "timers (snd (detectFaces caller s)) = timers s"
  "nextTimer (snd (detectFaces caller s)) = nextTimer s"
  "effect (snd (detectFaces caller s)) = effect s"
  "isStreaming (snd (detectFaces caller s)) = isStreaming s"
  "model (snd (detectFaces caller s)) = model s"
  by (simp_all add: detectFaces_def split_beta Let_def split: option.splits)

lemma detectFaces_inflight:
  "fst (detectFaces caller s) = Returned \<Longrightarrow> inflight (snd (detectFaces caller s)) = inflight s"
  "fst (detectFaces caller s) = Suspended \<Longrightarrow>
     \<exists>c. awaited_by c = caller \<and> inflight (snd (detectFaces caller s)) = inflight s @ [c]"
  by (auto simp: detectFaces_def split_beta Let_def split: option.splits if_splits)

lemma runDetection_cases:
  "(fst (detectFaces (Some e) s) = Returned
      \<and> runDetection e s = schedule e (snd (detectFaces (Some e) s)))
   \<or> (fst (detectFaces (Some e) s) = Suspended
      \<and> runDetection e s = snd (detectFaces (Some e) s))"
  by (cases "detectFaces (Some e) s"; cases "fst (detectFaces (Some e) s)")
     (simp_all add: runDetection_def)

lemma runDetection_fields:
  "effect (runDetection e s) = effect s"
  "isStreaming (runDetection e s) = isStreaming s"
  "model (runDetection e s) = model s"
  using runDetection_cases [of e s]
  by (auto simp: schedule_fields detectFaces_fields)

lemma timers_fresh_schedule: "timers_fresh s \<Longrightarrow> timers_fresh (schedule e s)"
  by (auto simp: timers_fresh_def schedule_fields)

lemma timers_fresh_runDetection: "timers_fresh s \<Longrightarrow> timers_fresh (runDetection e s)"
proof -
  assume a: "timers_fresh s"
  have d: "timers_fresh (snd (detectFaces (Some e) s))"
    using a by (simp add: timers_fresh_def detectFaces_fields)
  show ?thesis
    using runDetection_cases [of e s] d timers_fresh_schedule by auto
qed

lemma runDetection_grows:
  "set (timers s) \<subseteq> set (timers (runDetection e s))"
  "set (inflight s) \<subseteq> set (inflight (runDetection e s))"
  using runDetection_cases [of e s] detectFaces_inflight [of "Some e" s]
  by (auto simp: schedule_fields detectFaces_fields)

lemma loop_alive_grows:
  assumes "loop_alive s" and "effect s' = effect s"
    and "set (timers s) \<subseteq> set (timers s')" and "set (inflight s) \<subseteq> set (inflight s')"
  shows "loop_alive s'"
  using assms unfolding loop_alive_def by (metis subsetD)

lemma runDetection_alive: "loop_alive (runDetection (effect s) s)"
proof -
  from runDetection_cases [of "effect s" s]
  show ?thesis
  proof
    assume a: "fst (detectFaces (Some (effect s)) s) = Returned
      \<and> runDetection (effect s) s = schedule (effect s) (snd (detectFaces (Some (effect s)) s))"
    then show ?thesis
      by (simp add: loop_alive_def schedule_fields detectFaces_fields)
  next
    assume a: "fst (detectFaces (Some (effect s)) s) = Suspended
      \<and> runDetection (effect s) s = snd (detectFaces (Some (effect s)) s)"
    with detectFaces_inflight(2) [of "Some (effect s)" s]
    show ?thesis
      by (auto simp: loop_alive_def detectFaces_fields)
  qed
qed

lemma runDetection_keeps_alive: "loop_alive s \<Longrightarrow> loop_alive (runDetection e s)"
  by (rule loop_alive_grows [where s = s])
     (simp_all add: runDetection_fields runDetection_grows)


lemma sound_eq:
  assumes "timers s' = timers s" and "nextTimer s' = nextTimer s" and "effect s' = effect s"
    and "inflight s' = inflight s" and "isStreaming s' = isStreaming s"
    and "model s' = model s"
  shows "sound s' = sound s"
  using assms by (simp add: sound_def timers_fresh_def loop_alive_def)

lemma timers_fresh_eq:
  assumes "timers s' = timers s" and "nextTimer s' = nextTimer s"
  shows "timers_fresh s' = timers_fresh s"
  using assms by (simp add: timers_fresh_def)

lemma timers_fresh_filter:
  "timers_fresh s \<Longrightarrow> timers_fresh (s\<lparr>timers := filter P (timers s)\<rparr>)"
  by (simp add: timers_fresh_def distinct_map_filter)

lemma next_effect_fields:
  "isStreaming (next_effect s) = isStreaming s"
  "model (next_effect s) = model s"
  "timers_fresh s \<Longrightarrow> timers_fresh (next_effect s)"
proof -
  show "isStreaming (next_effect s) = isStreaming s" "model (next_effect s) = model s"
    by (simp_all add: next_effect_def effect_cleanup_def Let_def split: option.splits)
  assume a: "timers_fresh s"
  have "timers_fresh (effect_cleanup s)"
    using timers_fresh_filter [OF a] by (simp add: effect_cleanup_def a split: option.splits)
  then show "timers_fresh (next_effect s)"
    by (simp add: next_effect_def Let_def timers_fresh_def)
qed

lemma detection_effect_sound: "timers_fresh s \<Longrightarrow> sound (detection_effect s)"
proof -
  assume a: "timers_fresh s"
  let ?s2 = "next_effect s"
  have f: "timers_fresh ?s2" using a by (rule next_effect_fields)
  show ?thesis
  proof (cases "isStreaming ?s2 \<and> model ?s2 \<noteq> None")
    case True
    then have "detection_effect s = runDetection (effect ?s2) ?s2"
      by (simp add: detection_effect_def Let_def)
    then show ?thesis
      using timers_fresh_runDetection [OF f] runDetection_alive [of ?s2]
      by (simp add: sound_def)
  next
    case False
    then have "detection_effect s = ?s2"
      by (auto simp: detection_effect_def Let_def)
    then show ?thesis using f False by (auto simp: sound_def)
  qed
qed

lemma commit_sound:
  assumes "timers_fresh s'"
    and "isStreaming s' = isStreaming b \<and> model s' = model b \<Longrightarrow> sound s'"
  shows "sound (commit b s')"
  using assms detection_effect_sound [of s'] by (auto simp: commit_def)

lemma find_timer:
  "find (\<lambda>x. tid x = t) ts = Some x \<Longrightarrow> x \<in> set ts \<and> tid x = t"
  by (induction ts) (auto split: if_splits)

lemma same_tid:
  "distinct (map tid ts) \<Longrightarrow> x \<in> set ts \<Longrightarrow> y \<in> set ts \<Longrightarrow> tid x = tid y \<Longrightarrow> x = y"
  by (induction ts) (auto simp: image_iff)

lemma timer_fires_sound:
  assumes "sound s" and "find (\<lambda>x. tid x = t) (timers s) = Some x"
  shows "sound (runDetection (owner x) (unqueue t s))"
proof -
  let ?s1 = "unqueue t s"
  from find_timer [OF assms(2)] have x: "x \<in> set (timers s)" "tid x = t" by simp_all
  have f: "timers_fresh ?s1"
    using assms(1) timers_fresh_filter [of s "\<lambda>y. tid y \<noteq> t"]
    by (simp add: sound_def unqueue_def)
  have u: "effect ?s1 = effect s" "isStreaming ?s1 = isStreaming s" "model ?s1 = model s"
    "inflight ?s1 = inflight s" "timers ?s1 = filter (\<lambda>y. tid y \<noteq> t) (timers s)"
    by (simp_all add: unqueue_def)
  have "loop_alive (runDetection (owner x) ?s1)" if st: "isStreaming s" "model s \<noteq> None"
  proof -
    from assms(1) st have al: "loop_alive s" by (simp add: sound_def)
    show ?thesis
    proof (cases "owner x = effect s")
      case True
      then show ?thesis using runDetection_alive [of ?s1] by (simp add: u)
    next
      case False
      have "loop_alive ?s1"
        unfolding loop_alive_def u
      proof -
        from al consider y where "y \<in> set (timers s)" "owner y = effect s"
          | c where "c \<in> set (inflight s)" "awaited_by c = Some (effect s)"
          unfolding loop_alive_def by blast
        then show "(\<exists>t\<in>set (filter (\<lambda>y. tid y \<noteq> t) (timers s)). owner t = effect s)
            \<or> (\<exists>c\<in>set (inflight s). awaited_by c = Some (effect s))"
        proof cases
          case 1
          have "tid y \<noteq> t"
          proof
            assume "tid y = t"
            with same_tid [of "timers s" x y] x 1(1) assms(1) have "x = y"
              by (simp add: sound_def timers_fresh_def)
            with 1(2) False show False by simp
          qed
          with 1 show ?thesis by auto
        next
          case 2
          then show ?thesis by blast
        qed
      qed
      then show ?thesis by (rule runDetection_keeps_alive)
    qed
  qed
  then show ?thesis
    using timers_fresh_runDetection [OF f]
    by (simp add: sound_def runDetection_fields u)
qed


lemma in_set_remove_nth:
  assumes "c \<in> set xs" and "i < length xs" and "c \<noteq> xs ! i"
  shows "c \<in> set (take i xs @ drop (Suc i) xs)"
proof -
  have "xs = take i xs @ xs ! i # drop (Suc i) xs"
    using assms(2) by (rule id_take_nth_drop)
  then have "set xs = set (take i xs) \<union> {xs ! i} \<union> set (drop (Suc i) xs)"
    by (metis Un_insert_right list.simps(15) set_append sup_bot.right_neutral Un_assoc insert_is_Un)
  with assms(1,3) show ?thesis by auto
qed

lemma set_remove_nth_subset: "set (take i xs @ drop (Suc i) xs) \<subseteq> set xs"
  by (auto dest: in_set_takeD in_set_dropD)

lemma settle_sound:
  assumes "sound s" and "i < length (inflight s)"
    and "timers s1 = timers s" and "nextTimer s1 = nextTimer s" and "effect s1 = effect s"
    and "isStreaming s1 = isStreaming s" and "model s1 = model s"
    and "inflight s1 = take i (inflight s) @ drop (Suc i) (inflight s)"
  shows "sound (resume (inflight s ! i) s1)"
proof -
  let ?cyc = "inflight s ! i"
  let ?s' = "resume ?cyc s1"
  have f1: "timers_fresh s1"
    using assms(1,3,4) by (simp add: sound_def timers_fresh_def)
  have f: "timers_fresh ?s'"
    using f1 timers_fresh_schedule by (simp add: resume_def split: option.splits)
  have fields: "effect ?s' = effect s" "isStreaming ?s' = isStreaming s" "model ?s' = model s"
    "inflight ?s' = take i (inflight s) @ drop (Suc i) (inflight s)"
    "set (timers s) \<subseteq> set (timers ?s')"
    using assms(3-8) by (auto simp: resume_def schedule_fields split: option.splits)
  have "loop_alive ?s'" if st: "isStreaming s" "model s \<noteq> None"
  proof -
    from assms(1) st have "loop_alive s" by (simp add: sound_def)
    then consider y where "y \<in> set (timers s)" "owner y = effect s"
      | c where "c \<in> set (inflight s)" "awaited_by c = Some (effect s)"
      unfolding loop_alive_def by blast
    then show ?thesis
    proof cases
      case 1
      with fields show ?thesis unfolding loop_alive_def by auto
    next
      case 2
      show ?thesis
      proof (cases "c = ?cyc")
        case True
        with 2 have "?s' = schedule (effect s) s1" by (simp add: resume_def)
        then show ?thesis
          using assms(5) by (simp add: loop_alive_def schedule_fields)
      next
        case False
        from in_set_remove_nth [OF 2(1) assms(2) False] 2(2) fields
        show ?thesis unfolding loop_alive_def by auto
      qed
    qed
  qed
  with f fields show ?thesis by (simp add: sound_def)
qed

lemma resolved_fields:
  "timers (detectFaces_resolved J cyc preds s) = timers s"
  "nextTimer (detectFaces_resolved J cyc preds s) = nextTimer s"
  "effect (detectFaces_resolved J cyc preds s) = effect s"
  "isStreaming (detectFaces_resolved J cyc preds s) = isStreaming s"
  "model (detectFaces_resolved J cyc preds s) = model s"
  "inflight (detectFaces_resolved J cyc preds s) = inflight s"
  by (simp_all add: detectFaces_resolved_def Let_def)

lemma rejected_fields:
  "timers (detectFaces_rejected err s) = timers s"
  "nextTimer (detectFaces_rejected err s) = nextTimer s"
  "effect (detectFaces_rejected err s) = effect s"
  "isStreaming (detectFaces_rejected err s) = isStreaming s"
  "model (detectFaces_rejected err s) = model s"
  "inflight (detectFaces_rejected err s) = inflight s"
  "error (detectFaces_rejected err s) = Some ''Face detection failed. Please try again.''"
  "debugInfo (detectFaces_rejected err s) = ''Error: '' @ err"
  by (simp_all add: detectFaces_rejected_def)

lemma step_sound: "sound s \<Longrightarrow> sound (step J ev s)"
proof (cases ev)
  case (ModelLoaded m)
  assume a: "sound s"
  let ?s' = "loadModel_loaded m (s\<lparr>loadPending := False\<rparr>)"
  have "sound (commit s ?s')"
  proof (rule commit_sound)
    show "timers_fresh ?s'" using a by (simp add: sound_def timers_fresh_def loadModel_loaded_def)
    assume "isStreaming ?s' = isStreaming s \<and> model ?s' = model s"
    then have "sound ?s' = sound s"
      by (intro sound_eq) (simp_all add: loadModel_loaded_def)
    with a show "sound ?s'" by simp
  qed
  with a ModelLoaded show ?thesis by simp
next
  case (ModelLoadFailed err)
  assume a: "sound s"
  have "sound (loadModel_failed (s\<lparr>loadPending := False\<rparr>)) = sound s"
    by (rule sound_eq) (simp_all add: loadModel_failed_def)
  with a ModelLoadFailed show ?thesis by simp
next
  case StartClick
  assume a: "sound s"
  have "sound (s\<lparr>cameraRequests := cameraRequests s + 1\<rparr>) = sound s"
    by (rule sound_eq) simp_all
  with a StartClick show ?thesis by simp
next
  case (CameraGranted stream)
  assume a: "sound s"
  have "sound (startCamera_granted stream
             (s\<lparr>cameraRequests := cameraRequests s - 1,
                liveTracks := liveTracks s \<union> set stream\<rparr>)) = sound s"
    by (rule sound_eq) (simp_all add: startCamera_granted_def split: option.splits)
  with a CameraGranted show ?thesis by simp
next
  case CameraDenied
  assume a: "sound s"
  have "sound (startCamera_denied (s\<lparr>cameraRequests := cameraRequests s - 1\<rparr>)) = sound s"
    by (rule sound_eq) (simp_all add: startCamera_denied_def)
  with a CameraDenied show ?thesis by simp
next
  case LoadedMetadata
  assume a: "sound s"
  have "sound (commit s (loadedmetadata v s))" for v
  proof (rule commit_sound)
    show "timers_fresh (loadedmetadata v s)"
      using a by (simp add: sound_def timers_fresh_def loadedmetadata_def)
    assume "isStreaming (loadedmetadata v s) = isStreaming s
      \<and> model (loadedmetadata v s) = model s"
    then have "sound (loadedmetadata v s) = sound s"
      by (intro sound_eq) (simp_all add: loadedmetadata_def)
    with a show "sound (loadedmetadata v s)" by simp
  qed
  with a LoadedMetadata show ?thesis by (simp split: option.splits)
next
  case StopClick
  assume a: "sound s"
  have "sound (commit s (stopCamera s))"
  proof (rule commit_sound)
    show "timers_fresh (stopCamera s)"
      using a by (simp add: sound_def timers_fresh_def stopCamera_def split: option.splits)
    assume "isStreaming (stopCamera s) = isStreaming s \<and> model (stopCamera s) = model s"
    then have "sound (stopCamera s) = sound s"
      by (intro sound_eq) (simp_all add: stopCamera_def split: option.splits)
    with a show "sound (stopCamera s)" by simp
  qed
  with a StopClick show ?thesis by simp
next
  case (TimerFires t)
  assume a: "sound s"
  with TimerFires timer_fires_sound [OF a] show ?thesis
    by (simp split: option.splits)
next
  case FrameCallback
  assume a: "sound s"
  let ?s0 = "s\<lparr>frameCallbacks := frameCallbacks s - 1\<rparr>"
  let ?s' = "snd (detectFaces None ?s0)"
  have 0: "sound ?s0 = sound s" by (rule sound_eq) simp_all
  have tf: "timers_fresh ?s'"
    using a 0 by (simp add: sound_def timers_fresh_def detectFaces_fields)
  have "loop_alive ?s'" if "loop_alive s"
  proof (rule loop_alive_grows [where s = s, OF that])
    show "effect ?s' = effect s" "set (timers s) \<subseteq> set (timers ?s')"
      by (simp_all add: detectFaces_fields)
    show "set (inflight s) \<subseteq> set (inflight ?s')"
      using detectFaces_inflight [of None ?s0]
      by (cases "fst (detectFaces None ?s0)") auto
  qed
  with a tf have "sound ?s'"
    by (simp add: sound_def detectFaces_fields)
  with a FrameCallback show ?thesis by simp
next
  case (InferenceResolves i preds)
  assume a: "sound s"
  show ?thesis
  proof (cases "i < length (inflight s)")
    case True
    let ?s1 = "detectFaces_resolved J (inflight s ! i) preds
             (s\<lparr>inflight := take i (inflight s) @ drop (Suc i) (inflight s)\<rparr>)"
    have "sound (resume (inflight s ! i) ?s1)"
      by (rule settle_sound [OF a True]) (simp_all add: resolved_fields)
    with True InferenceResolves show ?thesis by simp
  next
    case False
    with a InferenceResolves show ?thesis by simp
  qed
next
  case (InferenceRejects i err)
  assume a: "sound s"
  show ?thesis
  proof (cases "i < length (inflight s)")
    case True
    let ?s1 = "detectFaces_rejected err
             (s\<lparr>inflight := take i (inflight s) @ drop (Suc i) (inflight s)\<rparr>)"
    have "sound (resume (inflight s ! i) ?s1)"
      by (rule settle_sound [OF a True]) (simp_all add: rejected_fields)
    with True InferenceRejects show ?thesis by simp
  next
    case False
    with a InferenceRejects show ?thesis by simp
  qed
next
  case (VideoChanges rs cw ch vw vh)
  assume a: "sound s"
  have "sound (video_changes rs cw ch vw vh s) = sound s"
    by (rule sound_eq) (simp_all add: video_changes_def)
  with a VideoChanges show ?thesis by simp
next
  case WindowResize
  assume a: "sound s"
  have "sound (handleResize s) = sound s"
    by (rule sound_eq) (simp_all add: handleResize_def split: option.splits)
  with a WindowResize show ?thesis by simp
qed

lemma reachable_sound: "sound (run J es (mounted ctx))"
proof (induction es rule: rev_induct)
  case Nil
  show ?case by (simp add: run_Nil sound_def timers_fresh_def mounted_def)
next
  case (snoc ev es)
  then show ?case using step_sound by (simp add: run_snoc)
qed


lemma commit_model: "model (commit b s) = model s"
  by (simp add: commit_def detection_effect_def Let_def next_effect_fields runDetection_fields)

lemma model_step_None:
  "model (step J ev s) = None \<Longrightarrow>
     model s = None \<and> (loadPending s \<longrightarrow> (\<forall>m. ev \<noteq> ModelLoaded m))"
  by (cases ev)
     (auto simp: commit_model loadModel_loaded_def loadModel_failed_def
        startCamera_granted_def startCamera_denied_def loadedmetadata_def stopCamera_def
        runDetection_fields unqueue_def detectFaces_fields resume_def schedule_fields
        resolved_fields rejected_fields video_changes_def handleResize_def
        split: option.splits if_splits)

lemma reachable_unloaded:
  "model (run J es (mounted ctx)) = None \<Longrightarrow> unloaded (run J es (mounted ctx))"
proof (induction es rule: rev_induct)
  case Nil
  then show ?case
    by (simp add: run_Nil unloaded_def no_detection_def mounted_def)
next
  case (snoc ev es)
  from snoc.prems have p: "model (step J ev (run J es (mounted ctx))) = None"
    by (simp add: run_snoc)
  from model_step_None [OF p] snoc.IH
  have "unloaded (run J es (mounted ctx))"
    and "\<not> loadPending (run J es (mounted ctx)) \<or> (\<forall>m. ev \<noteq> ModelLoaded m)"
    by auto
  then show ?case
    using step_unloaded [of "run J es (mounted ctx)" ev J] by (simp add: run_snoc)
qed

text \<open>
  Claim C5. In every reachable state of camera.tsx and for every pending detection
  cycle, when its inference fails the cycle sets the user-visible error and records
  \<open>Error: ...\<close> as debug text; the failure stays inside the cycle (the call ends, the
  streaming flag and the effect instance are as before, no pending timer is lost); the
  \<open>runDetection\<close> that awaited the call schedules its next run; and while streaming
  continues the loop of the current effect instance goes on: its timer is pending or its
  \<open>runDetection\<close> awaits another pending call.
\<close>

theorem inference_failure_is_not_fatal:
  assumes "i < length (inflight (run J pre (mounted ctx)))"
  shows "(let s = run J pre (mounted ctx);
              s' = step J (InferenceRejects i err) s
          in error s' = Some ''Face detection failed. Please try again.''
           \<and> debugInfo s' = ''Error: '' @ err
           \<and> isStreaming s' = isStreaming s
           \<and> effect s' = effect s
           \<and> length (inflight s') + 1 = length (inflight s)
           \<and> set (timers s) \<subseteq> set (timers s')
           \<and> (\<forall>e. awaited_by (inflight s ! i) = Some e \<longrightarrow>
                 \<lparr>tid = nextTimer s, owner = e\<rparr> \<in> set (timers s'))
           \<and> (isStreaming s' \<longrightarrow> loop_alive s'))"
proof -
  let ?s = "run J pre (mounted ctx)"
  let ?s1 = "detectFaces_rejected err
               (?s\<lparr>inflight := take i (inflight ?s) @ drop (Suc i) (inflight ?s)\<rparr>)"
  let ?s' = "step J (InferenceRejects i err) ?s"
  have st: "?s' = resume (inflight ?s ! i) ?s1"
    using assms by simp
  have m: "model ?s \<noteq> None"
  proof
    assume "model ?s = None"
    from reachable_unloaded [OF this] assms show False
      by (simp add: unloaded_def no_detection_def)
  qed
  have "sound ?s'"
    using reachable_sound [of J "pre @ [InferenceRejects i err]" ctx]
    by (simp only: run_snoc)
  then have alive: "isStreaming ?s' \<longrightarrow> loop_alive ?s'"
    using m unfolding st
    by (auto simp: sound_def resume_def schedule_fields rejected_fields split: option.splits)
  have rest: "error ?s' = Some ''Face detection failed. Please try again.''"
    "debugInfo ?s' = ''Error: '' @ err"
    "isStreaming ?s' = isStreaming ?s"
    "effect ?s' = effect ?s"
    "length (inflight ?s') + 1 = length (inflight ?s)"
    "set (timers ?s) \<subseteq> set (timers ?s')"
    "\<forall>e. awaited_by (inflight ?s ! i) = Some e \<longrightarrow>
        \<lparr>tid = nextTimer ?s, owner = e\<rparr> \<in> set (timers ?s')"
    unfolding st using assms
    by (auto simp: resume_def schedule_fields rejected_fields split: option.splits)
  from rest alive show ?thesis
    unfolding Let_def by (simp del: step.simps)
qed

theorem inference_failure_is_not_fatal_witness:
  "error (run (\<lambda>ps. []) (streaming_events @ [InferenceRejects 0 ''lost context''])
       (mounted True)) = Some ''Face detection failed. Please try again.''
   \<and> debugInfo (run (\<lambda>ps. []) (streaming_events @ [InferenceRejects 0 ''lost context''])
       (mounted True)) = ''Error: lost context''
   \<and> loop_alive (run (\<lambda>ps. []) (streaming_events @ [InferenceRejects 0 ''lost context''])
       (mounted True))
   \<and> timers (run (\<lambda>ps. []) (streaming_events @ [InferenceRejects 0 ''lost context''])
       (mounted True)) = [\<lparr>tid = 1, owner = 2\<rparr>]
   \<and> inferences (run (\<lambda>ps. [])
        (streaming_events @ [InferenceRejects 0 ''lost context'', TimerFires 1])
        (mounted True)) = 2"
proof -
  let ?s = "run (\<lambda>ps. []) streaming_events (mounted True)"
  let ?s' = "step (\<lambda>ps. []) (InferenceRejects 0 ''lost context'') ?s"
  have a: "0 < length (inflight ?s)"
    by (simp add: streaming_events_def ready_events_def run_simps)
  have r: "run (\<lambda>ps. []) (streaming_events @ [InferenceRejects 0 ''lost context''])
       (mounted True) = ?s'"
    by (simp only: run_snoc)
  have s: "isStreaming ?s'"
    by (simp add: streaming_events_def ready_events_def run_simps)
  from inference_failure_is_not_fatal [OF a, of "''lost context''"] s
  have "error ?s' = Some ''Face detection failed. Please try again.''"
    "debugInfo ?s' = ''Error: lost context''" "loop_alive ?s'"
    unfolding Let_def by simp_all
  moreover have "timers ?s' = [\<lparr>tid = 1, owner = 2\<rparr>]"
    by (simp add: streaming_events_def ready_events_def run_simps)
  moreover have "inferences (run (\<lambda>ps. [])
        (streaming_events @ [InferenceRejects 0 ''lost context'', TimerFires 1])
        (mounted True)) = 2"
    by (simp add: streaming_events_def ready_events_def run_simps)
  ultimately show ?thesis
    unfolding r by simp
qed

end
